theory Spec2Isabelle
  imports Main "HOL-Library.AList"
begin

section \<open>Strings\<close>

text \<open>
  A JavaScript string is a sequence of 16-bit code units. The code units are natural
  numbers here, so that every string the program can see is covered; \<open>js\<close> turns an
  ASCII literal into such a sequence.
\<close>

type_synonym jsstr = "nat list"

definition js :: "string \<Rightarrow> jsstr" where
  "js s = map of_char s"

definition slash :: nat where "slash = 47"
definition colon :: nat where "colon = 58"
definition quote :: nat where "quote = 39"

text \<open>The class \<^verbatim>\<open>\w\<close> of a regular expression without flags: \<^verbatim>\<open>[A-Za-z0-9_]\<close>.\<close>

definition isWordChar :: "nat \<Rightarrow> bool" where
  "isWordChar c = ((48 \<le> c \<and> c \<le> 57) \<or> (65 \<le> c \<and> c \<le> 90) \<or> c = 95 \<or> (97 \<le> c \<and> c \<le> 122))"

text \<open>The code units that \<^verbatim>\<open>.\<close> does not match: LF, CR, U+2028 and U+2029.\<close>

definition isLineTerminator :: "nat \<Rightarrow> bool" where
  "isLineTerminator c = (c = 10 \<or> c = 13 \<or> c = 8232 \<or> c = 8233)"

text \<open>\<^verbatim>\<open>s.replace(/\/+/g, '/')\<close>: every maximal run of slashes becomes one slash.\<close>

fun collapseSlashes :: "jsstr \<Rightarrow> jsstr" where
  "collapseSlashes [] = []"
| "collapseSlashes [c] = [c]"
| "collapseSlashes (c # d # cs) =
     (if c = slash \<and> d = slash then collapseSlashes (d # cs)
      else c # collapseSlashes (d # cs))"

text \<open>\<^verbatim>\<open>s.split(sep)\<close> for a one-character separator; the result is never empty.\<close>

fun splitOn :: "nat \<Rightarrow> jsstr \<Rightarrow> jsstr list" where
  "splitOn sep [] = [[]]"
| "splitOn sep (c # cs) =
     (if c = sep then [] # splitOn sep cs
      else (case splitOn sep cs of [] \<Rightarrow> [[c]] | x # xs \<Rightarrow> (c # x) # xs))"

text \<open>\<^verbatim>\<open>xs.join(sep)\<close> for a one-character separator.\<close>

fun joinWith :: "nat \<Rightarrow> jsstr list \<Rightarrow> jsstr" where
  "joinWith sep [] = []"
| "joinWith sep [x] = x"
| "joinWith sep (x # y # ys) = x @ sep # joinWith sep (y # ys)"

section \<open>Errors\<close>

text \<open>
  The \<^verbatim>\<open>code\<close> property of an error: absent, a number, or any other value, which
  is then used as a property key (a string).
\<close>

datatype errcode = NoCode | NumCode int | StrCode jsstr

text \<open>
  The errors the dispatcher meets: its own \<^verbatim>\<open>VFSError(message, code)\<close>, a
  \<^verbatim>\<open>TypeError\<close> of the runtime (with the runtime's message), the wrapper
  \<^verbatim>\<open>new Error(e)\<close>, and an error produced by an operation handler, of which
  only the \<^verbatim>\<open>code\<close> and the text of \<^verbatim>\<open>toString()\<close> matter.
\<close>

datatype error =
    VFSError jsstr int
  | TypeError jsstr
  | Wrapped error
  | External errcode jsstr

fun code :: "error \<Rightarrow> errcode" where
  "code (VFSError m c) = NumCode c"
| "code (TypeError m) = NoCode"
| "code (Wrapped e) = NoCode"
| "code (External c t) = c"

fun toString :: "error \<Rightarrow> jsstr" where
  "toString (VFSError m c) = js ''Error: '' @ m"
| "toString (TypeError m) = js ''TypeError: '' @ m"
| "toString (Wrapped e) = js ''Error: '' @ toString e"
| "toString (External c t) = t"

section \<open>Sanitizing a path\<close>

text \<open>
  \<^verbatim>\<open>s.match(/^(\w+):(.*)/)\<close>: the two groups, or nothing. The name is the longest
  run of word characters at the start (a colon is no word character, so no shorter run
  can be followed by one); the rest stops before the first line terminator.
\<close>

definition matchPath :: "jsstr \<Rightarrow> (jsstr \<times> jsstr) option" where
  "matchPath s =
     (let name = takeWhile isWordChar s in
      case dropWhile isWordChar s of
        [] \<Rightarrow> None
      | c # rest \<Rightarrow>
          if name \<noteq> [] \<and> c = colon
          then Some (name, takeWhile (\<lambda>c. \<not> isLineTerminator c) rest)
          else None)"

text \<open>
  \<^verbatim>\<open>sanitize\<close>. The package \<^verbatim>\<open>sanitize-filename\<close> is the parameter \<open>sf\<close>. When
  the match fails, both \<^verbatim>\<open>name\<close> and \<^verbatim>\<open>str\<close> are undefined and
  \<^verbatim>\<open>str.split\<close> throws a TypeError.
\<close>

definition splitTypeError :: error where
  "splitTypeError =
     TypeError (js ''Cannot read property '' @ quote # js ''split'' @ quote # js '' of undefined'')"

definition sanitize :: "(jsstr \<Rightarrow> jsstr) \<Rightarrow> jsstr \<Rightarrow> error + jsstr" where
  "sanitize sf filename =
     (case matchPath (collapseSlashes filename) of
        None \<Rightarrow> Inl splitTypeError
      | Some (name, str) \<Rightarrow>
          (let sane = collapseSlashes (joinWith slash (map sf (splitOn slash str)))
           in Inr (name @ colon # sane)))"

text \<open>
  The package \<^verbatim>\<open>sanitize-filename\<close> is not part of the sources. Its published
  algorithm, with the default empty replacement, removes in this order: the characters
  \<^verbatim>\<open>/ ? < > \ : * | "\<close>, the control characters, a name made of dots only, a name
  reserved on Windows (whatever its extension and its case), and trailing dots and
  spaces. Last it cuts the name to the longest run of whole characters that takes at
  most 255 bytes in UTF-8: one code unit takes 1, 2 or 3 bytes, a surrogate pair 4.
\<close>

definition illegalChar :: "nat \<Rightarrow> bool" where
  "illegalChar c = (c \<in> {47, 63, 60, 62, 92, 58, 42, 124, 34})"

definition controlChar :: "nat \<Rightarrow> bool" where
  "controlChar c = (c \<le> 31 \<or> (128 \<le> c \<and> c \<le> 159))"

definition lowerAscii :: "nat \<Rightarrow> nat" where
  "lowerAscii c = (if 65 \<le> c \<and> c \<le> 90 then c + 32 else c)"

fun dotExtension :: "jsstr \<Rightarrow> bool" where
  "dotExtension [] = True"
| "dotExtension (c # cs) = (c = 46 \<and> list_all (\<lambda>d. \<not> isLineTerminator d) cs)"

fun digitThenExtension :: "jsstr \<Rightarrow> bool" where
  "digitThenExtension [] = False"
| "digitThenExtension (c # cs) = (48 \<le> c \<and> c \<le> 57 \<and> dotExtension cs)"

definition windowsReserved :: "jsstr \<Rightarrow> bool" where
  "windowsReserved s =
     (let stem = map lowerAscii (take 3 s) in
      (stem \<in> {js ''con'', js ''prn'', js ''aux'', js ''nul''} \<and> dotExtension (drop 3 s)) \<or>
      (stem \<in> {js ''com'', js ''lpt''} \<and> digitThenExtension (drop 3 s)))"

definition stripTrailing :: "jsstr \<Rightarrow> jsstr" where
  "stripTrailing s = rev (dropWhile (\<lambda>c. c = 46 \<or> c = 32) (rev s))"

definition unitBytes :: "nat \<Rightarrow> nat" where
  "unitBytes c = (if c < 128 then 1 else if c < 2048 then 2 else 3)"

definition isHighSurrogate :: "nat \<Rightarrow> bool" where
  "isHighSurrogate c = (55296 \<le> c \<and> c \<le> 56319)"

definition isLowSurrogate :: "nat \<Rightarrow> bool" where
  "isLowSurrogate c = (56320 \<le> c \<and> c \<le> 57343)"

fun truncateBytes :: "nat \<Rightarrow> jsstr \<Rightarrow> jsstr" where
  "truncateBytes n [] = []"
| "truncateBytes n [c] = (if unitBytes c \<le> n then [c] else [])"
| "truncateBytes n (c # d # cs) =
     (if isHighSurrogate c \<and> isLowSurrogate d
      then (if 4 \<le> n then c # d # truncateBytes (n - 4) cs else [])
      else (if unitBytes c \<le> n then c # truncateBytes (n - unitBytes c) (d # cs) else []))"

definition sanitizeFilename :: "jsstr \<Rightarrow> jsstr" where
  "sanitizeFilename s =
     (let s1 = filter (\<lambda>c. \<not> illegalChar c) s;
          s2 = filter (\<lambda>c. \<not> controlChar c) s1;
          s3 = (if s2 \<noteq> [] \<and> list_all (\<lambda>c. c = 46) s2 then [] else s2);
          s4 = (if windowsReserved s3 then [] else s3)
      in truncateBytes 255 (stripTrailing s4))"

text \<open>The segments of a sanitized path: what follows its first colon, split at the slashes.\<close>

definition pathSegments :: "jsstr \<Rightarrow> jsstr list" where
  "pathSegments q = splitOn slash (drop 1 (dropWhile (\<lambda>c. c \<noteq> colon) q))"

section \<open>The data model\<close>

text \<open>
  A plain object has, besides its own properties, the ones it inherits from
  \<^verbatim>\<open>Object.prototype\<close>: a lookup \<^verbatim>\<open>o[name]\<close> and the test \<^verbatim>\<open>name in o\<close> find
  them too, and each of them is a function or an object, hence truthy and no array.
\<close>

definition inheritedNames :: "jsstr list" where
  "inheritedNames =
     [js ''constructor'', js ''__defineGetter__'', js ''__defineSetter__'', js ''hasOwnProperty'',
      js ''__lookupGetter__'', js ''__lookupSetter__'', js ''isPrototypeOf'',
      js ''propertyIsEnumerable'', js ''toString'', js ''valueOf'', js ''__proto__'',
      js ''toLocaleString'']"

text \<open>
  A field of a request holds a string or is undefined (a parameter given twice, which the
  parser turns into an array, is outside the model). The field mapping lists its keys
  in the order of \<^verbatim>\<open>Object.keys\<close>; the keys the source looks up in it (\<open>path\<close>,
  \<open>from\<close>, \<open>to\<close>, \<open>root\<close> and \<open>undefined\<close>) are none of the inherited names.
\<close>

datatype jsval = Undefined | Str jsstr

type_synonym fields = "(jsstr \<times> jsval) list"

text \<open>\<^verbatim>\<open>fields[key]\<close>, undefined for a key that is absent.\<close>

definition fieldOf :: "fields \<Rightarrow> jsstr \<Rightarrow> jsval" where
  "fieldOf fs k = (case map_of fs k of None \<Rightarrow> Undefined | Some v \<Rightarrow> v)"

text \<open>
  An entry of \<^verbatim>\<open>attributes.groups\<close> is a bare group name or an object that maps
  method names to lists of groups.
\<close>

datatype group = Named jsstr | PerMethod "(jsstr \<times> jsstr list) list"

record attributes =
  groups :: "group list"
  readOnly :: bool

record mountpoint =
  name :: jsstr
  adapter :: "jsstr option"
  attributes :: attributes

text \<open>
  An adapter object: its identity and the names \<open>n\<close> for which \<^verbatim>\<open>adapter[n]\<close> is
  defined. The provider lists what \<^verbatim>\<open>provider.adapters[id]\<close> yields for an
  identifier.
\<close>

record adapter_obj =
  handle :: nat
  operations :: "jsstr list"

record provider =
  mountpoints :: "mountpoint list"
  adapters :: "(jsstr \<times> adapter_obj) list"

text \<open>The read-only override of a route: a boolean, or a function of the fields.\<close>

datatype ro = RoBool bool | RoFun "fields \<Rightarrow> jsval"

section \<open>Policy checks\<close>

definition all_in :: "jsstr list \<Rightarrow> jsstr list \<Rightarrow> bool" where
  "all_in arr compare = list_all (\<lambda>g. g \<in> set compare) arr"

fun isNamed :: "group \<Rightarrow> bool" where
  "isNamed (Named n) = True"
| "isNamed (PerMethod d) = False"

text \<open>
  \<^verbatim>\<open>typeof g === 'string' ? false : (method in g)\<close>: true of an object for its own
  keys and for the inherited names.
\<close>

fun hasMethod :: "jsstr \<Rightarrow> group \<Rightarrow> bool" where
  "hasMethod method (Named n) = False"
| "hasMethod method (PerMethod d) = (map_of d method \<noteq> None \<or> method \<in> set inheritedNames)"

text \<open>
  \<^verbatim>\<open>all(methodGroups[method], userGroups)\<close>, for the entry that was found, which is
  never a bare name: under an own key is the list of groups; under an inherited name is
  a value without \<^verbatim>\<open>every\<close>, and the call throws a TypeError.
\<close>

definition everyTypeError :: error where
  "everyTypeError = TypeError (js ''arr.every is not a function'')"

fun allUnder :: "jsstr \<Rightarrow> group \<Rightarrow> jsstr list \<Rightarrow> error + bool" where
  "allUnder method (Named n) userGroups = Inl everyTypeError"
| "allUnder method (PerMethod d) userGroups =
     (case map_of d method of
        None \<Rightarrow> Inl everyTypeError
      | Some gs \<Rightarrow> Inr (all_in gs userGroups))"

fun nameOf :: "group \<Rightarrow> jsstr list" where
  "nameOf (Named n) = [n]"
| "nameOf (PerMethod d) = []"

definition validateGroups :: "jsstr list \<Rightarrow> jsstr \<Rightarrow> mountpoint \<Rightarrow> error + bool" where
  "validateGroups userGroups method m =
     (let gs = groups (attributes m) in
      if gs \<noteq> [] then
        (let namedGroups = concat (map nameOf (filter isNamed gs));
             methodGroups = find (hasMethod method) gs;
             namedValid = (if namedGroups \<noteq> [] then all_in namedGroups userGroups else True)
         in case methodGroups of
              Some g \<Rightarrow> (case allUnder method g userGroups of
                          Inl e \<Rightarrow> Inl e
                        | Inr methodValid \<Rightarrow> Inr (namedValid \<and> methodValid))
            | None \<Rightarrow> Inr namedValid)
      else Inr True)"

text \<open>\<^verbatim>\<open>String(v)\<close>\<close>

fun String :: "jsval \<Rightarrow> jsstr" where
  "String Undefined = js ''undefined''"
| "String (Str s) = s"

definition getPrefix :: "jsval \<Rightarrow> jsstr" where
  "getPrefix v = (case splitOn colon (String v) of [] \<Rightarrow> [] | p # ps \<Rightarrow> p)"

definition checkReadOnly :: "ro \<Rightarrow> mountpoint \<Rightarrow> fields \<Rightarrow> bool" where
  "checkReadOnly r m fs =
     (if readOnly (attributes m)
      then (case r of RoFun f \<Rightarrow> getPrefix (f fs) = name m | RoBool b \<Rightarrow> b)
      else False)"

section \<open>Resolving a mountpoint\<close>

definition getAdapter :: "provider \<Rightarrow> mountpoint \<Rightarrow> adapter_obj option" where
  "getAdapter p m =
     (case adapter m of
        None \<Rightarrow> map_of (adapters p) (js ''system'')
      | Some a \<Rightarrow> if a \<noteq> [] then map_of (adapters p) a else map_of (adapters p) (js ''system''))"

definition known :: "jsstr list" where
  "known = [js ''path'', js ''from'', js ''root'']"

text \<open>The four errors that \<^verbatim>\<open>resolveMountpoint\<close> throws, with their messages and codes.\<close>

definition notFound :: "jsstr \<Rightarrow> error" where
  "notFound prefix = VFSError (js ''Mountpoint not found for '' @ quote # prefix @ [quote]) 403"

definition isReadOnly :: "jsstr \<Rightarrow> error" where
  "isReadOnly prefix =
     VFSError (js ''Mountpoint '' @ quote # prefix @ js '' is read-only'' @ [quote]) 403"

definition denied :: "jsstr \<Rightarrow> jsstr \<Rightarrow> error" where
  "denied endpoint prefix =
     VFSError (js ''Permission was denied for '' @ quote # endpoint @ quote #
               js '' in '' @ quote # prefix @ [quote]) 403"

definition notValid :: "jsstr \<Rightarrow> error" where
  "notValid endpoint =
     VFSError (js ''VFS Endpoint '' @ quote # endpoint @
               js '' was not valid for this mountpoint.'' @ [quote]) 401"

text \<open>
  \<^verbatim>\<open>resolveMountpoint\<close>. The parameter \<open>vfsMethods\<close> lists the names \<open>n\<close> for which
  \<^verbatim>\<open>vfsMethods[n]\<close> of \<^verbatim>\<open>../vfs/methods\<close> is defined. What \<^verbatim>\<open>validateGroups\<close>
  throws passes through. The last test looks at \<^verbatim>\<open>vfsMethods[endpoint]\<close> first; only
  when that is defined does it read \<^verbatim>\<open>adapter[endpoint]\<close>, which throws a TypeError
  for an adapter that the provider does not have.
\<close>

definition resolveMountpoint ::
  "jsstr list \<Rightarrow> provider \<Rightarrow> jsstr \<Rightarrow> fields \<Rightarrow> jsstr list \<Rightarrow> ro \<Rightarrow> error + (adapter_obj \<times> mountpoint)" where
  "resolveMountpoint vfsMethods p endpoint fs userGroups r =
     (let field = find (\<lambda>key. key \<in> set known) (map fst fs);
          prefix = getPrefix (fieldOf fs (case field of None \<Rightarrow> js ''undefined'' | Some k \<Rightarrow> k));
          found = (if prefix \<noteq> [] then find (\<lambda>m. name m = prefix) (mountpoints p) else None)
      in case found of
           None \<Rightarrow> Inl (notFound prefix)
         | Some m \<Rightarrow>
             if checkReadOnly r m fs
             then Inl (isReadOnly prefix)
             else (case validateGroups userGroups endpoint m of
                     Inl e \<Rightarrow> Inl e
                   | Inr valid \<Rightarrow>
                       if \<not> valid
                       then Inl (denied endpoint prefix)
                       else if endpoint \<notin> set vfsMethods
                       then Inl (notValid endpoint)
                       else (case getAdapter p m of
                               None \<Rightarrow> Inl (TypeError (js ''Cannot read property '' @ quote # endpoint @
                                                      quote # js '' of undefined''))
                             | Some a \<Rightarrow>
                                 if endpoint \<notin> set (operations a)
                                 then Inl (notValid endpoint)
                                 else Inr (a, m))))"

section \<open>The request\<close>

text \<open>
  \<^verbatim>\<open>errorCodes\<close> and \<^verbatim>\<open>respondError\<close>. What is handed to \<^verbatim>\<open>res.status\<close> is a
  number, or the property that \<^verbatim>\<open>errorCodes\<close>, a plain object, inherits under the
  name of the code. A code that is no number is looked up as a key of the table; what
  \<^verbatim>\<open>||\<close> does with a missing or zero entry is written out.
\<close>

datatype statusval = StatusNum int | StatusInherited jsstr

definition errorCodes :: "(jsstr \<times> int) list" where
  "errorCodes = [(js ''ENOENT'', 404), (js ''EACCES'', 401)]"

fun codeKey :: "errcode \<Rightarrow> jsstr" where
  "codeKey NoCode = js ''undefined''"
| "codeKey (StrCode s) = s"
| "codeKey (NumCode n) = []"

definition status :: "error \<Rightarrow> statusval" where
  "status e =
     (case code e of
        NumCode n \<Rightarrow> StatusNum n
      | c \<Rightarrow> (case map_of errorCodes (codeKey c) of
                None \<Rightarrow> if codeKey c \<in> set inheritedNames
                        then StatusInherited (codeKey c) else StatusNum 400
              | Some n \<Rightarrow> if n \<noteq> 0 then StatusNum n else StatusNum 400))"

text \<open>
  What a handler gets in \<^verbatim>\<open>files\<close>: an uploaded file, known by its temporary path,
  or the buffer that was read from the source. What the request ends with: a JSON
  result, a piped stream, an error response with its status and its
  \<^verbatim>\<open>{error: text}\<close> body, or a rejection that nothing catches, in which case no
  response is written.
\<close>

datatype 'v upload = TempFile jsstr | Buffer 'v

datatype 'v result = Value 'v | JTrue

datatype 'v response =
    Json "'v result"
  | Stream "'v result"
  | Failed statusval jsstr
  | Uncaught error

record 'v call =
  cmethod :: jsstr
  cfields :: fields
  cfiles :: "(jsstr \<times> 'v upload) list"
  cadapter :: adapter_obj
  cmount :: mountpoint

text \<open>
  The state a request runs in: the calls of the inner
  \<^verbatim>\<open>request(method, fields, files)(adapter, mountpoint)\<close> made so far, the temporary
  files removed, the errors logged, and the world the handlers act on.
\<close>

record ('v, 'w) state =
  calls :: "'v call list"
  removed :: "jsstr list"
  logged :: "error list"
  world :: 'w

text \<open>
  Modelled from the spec: the operation handlers of \<^verbatim>\<open>../vfs/methods\<close> are not
  part of the sources. A handler, called with the fields, the files, the adapter and
  the mountpoint, returns a deferred result, which fails with an error or yields a
  value; \<open>exec\<close> is that behaviour, acting on the world.
\<close>

type_synonym ('v, 'w) exec = "'v call \<Rightarrow> 'w \<Rightarrow> (error + 'v) \<times> 'w"

definition invoke ::
  "('v, 'w) exec \<Rightarrow> 'v call \<Rightarrow> ('v, 'w) state \<Rightarrow> (error + 'v) \<times> ('v, 'w) state" where
  "invoke exec c s =
     (case exec c (world s) of (r, w) \<Rightarrow> (r, s\<lparr>calls := calls s @ [c], world := w\<rparr>))"

text \<open>\<^verbatim>\<open>promise.then(f)\<close>: a rejection passes through.\<close>

definition andThen ::
  "(error + 'a) \<times> 's \<Rightarrow> ('a \<Rightarrow> 's \<Rightarrow> (error + 'b) \<times> 's) \<Rightarrow> (error + 'b) \<times> 's" where
  "andThen p f = (case p of (Inl e, s) \<Rightarrow> (Inl e, s) | (Inr a, s) \<Rightarrow> f a s)"

text \<open>The chain built when the two mountpoints name different adapters.\<close>

definition transfer ::
  "('v, 'w) exec \<Rightarrow> jsstr \<Rightarrow> fields \<Rightarrow> adapter_obj \<Rightarrow> mountpoint \<Rightarrow> adapter_obj \<Rightarrow> mountpoint \<Rightarrow>
   ('v, 'w) state \<Rightarrow> (error + 'v result) \<times> ('v, 'w) state" where
  "transfer exec endpoint fs srcAdapter srcMount dstAdapter dstMount s =
     andThen
       (andThen
          (invoke exec \<lparr>cmethod = js ''readfile'', cfields = [(js ''path'', fieldOf fs (js ''from''))],
                        cfiles = [], cadapter = srcAdapter, cmount = srcMount\<rparr> s)
          (\<lambda>ab. invoke exec \<lparr>cmethod = js ''writefile'', cfields = [(js ''path'', fieldOf fs (js ''to''))],
                              cfiles = [(js ''upload'', Buffer ab)], cadapter = dstAdapter,
                              cmount = dstMount\<rparr>))
       (\<lambda>res s'.
          if endpoint = js ''rename''
          then andThen
                 (invoke exec \<lparr>cmethod = js ''unlink'', cfields = [(js ''path'', fieldOf fs (js ''from''))],
                               cfiles = [], cadapter = srcAdapter, cmount = srcMount\<rparr> s')
                 (\<lambda>u s''. (Inr JTrue, s''))
          else (Inr JTrue, s'))"

text \<open>The \<^verbatim>\<open>try\<close> block: whatever the resolver throws is wrapped in a new error.\<close>

definition dispatch ::
  "jsstr list \<Rightarrow> ('v, 'w) exec \<Rightarrow> provider \<Rightarrow> jsstr \<Rightarrow> ro \<Rightarrow> jsstr list \<Rightarrow> fields \<Rightarrow>
   (jsstr \<times> jsstr) list \<Rightarrow> ('v, 'w) state \<Rightarrow> (error + 'v result) \<times> ('v, 'w) state" where
  "dispatch vfsMethods exec p endpoint r userGroups fs files s =
     (let resolve = resolveMountpoint vfsMethods p;
          direct =
            (case resolve endpoint fs userGroups r of
               Inl e \<Rightarrow> (Inl (Wrapped e), s)
             | Inr (a, m) \<Rightarrow>
                 andThen
                   (invoke exec \<lparr>cmethod = endpoint, cfields = fs,
                                 cfiles = map (\<lambda>(k, path). (k, TempFile path)) files,
                                 cadapter = a, cmount = m\<rparr> s)
                   (\<lambda>v s'. (Inr (Value v), s')))
      in if endpoint \<in> set [js ''rename'', js ''copy'']
         then (case resolve (js ''readfile'') [(js ''path'', fieldOf fs (js ''from''))] userGroups (RoBool False) of
                 Inl e \<Rightarrow> (Inl (Wrapped e), s)
               | Inr (srcAdapter, srcMount) \<Rightarrow>
                   (case resolve (js ''writefile'') [(js ''path'', fieldOf fs (js ''to''))] userGroups (RoBool True) of
                      Inl e \<Rightarrow> (Inl (Wrapped e), s)
                    | Inr (dstAdapter, dstMount) \<Rightarrow>
                        if adapter srcMount \<noteq> adapter dstMount
                        then transfer exec endpoint fs srcAdapter srcMount dstAdapter dstMount s
                        else direct))
         else direct)"

text \<open>The sanitizing of the path fields, in the order of the source.\<close>

definition sanitizeField :: "(jsstr \<Rightarrow> jsstr) \<Rightarrow> jsstr \<Rightarrow> fields \<Rightarrow> error + fields" where
  "sanitizeField sf key fs =
     (case fieldOf fs key of
        Undefined \<Rightarrow> Inr fs
      | Str v \<Rightarrow> (case sanitize sf v of
                    Inl e \<Rightarrow> Inl e
                  | Inr v' \<Rightarrow> Inr (AList.update key (Str v') fs)))"

fun sanitizeFields :: "(jsstr \<Rightarrow> jsstr) \<Rightarrow> jsstr list \<Rightarrow> fields \<Rightarrow> error + fields" where
  "sanitizeFields sf [] fs = Inr fs"
| "sanitizeFields sf (key # keys) fs =
     (case sanitizeField sf key fs of
        Inl e \<Rightarrow> Inl e
      | Inr fs' \<Rightarrow> sanitizeFields sf keys fs')"

definition respondError :: "error \<Rightarrow> 'v response" where
  "respondError e = Failed (status e) (toString e)"

text \<open>
  \<^verbatim>\<open>request\<close>, from the parsed fields and files on. The sanitizing runs outside the
  \<^verbatim>\<open>try\<close> block and before the \<^verbatim>\<open>catch\<close> handler is attached.
\<close>

definition request ::
  "(jsstr \<Rightarrow> jsstr) \<Rightarrow> jsstr list \<Rightarrow> ('v, 'w) exec \<Rightarrow> provider \<Rightarrow> jsstr \<Rightarrow> ro \<Rightarrow> jsstr list \<Rightarrow>
   fields \<Rightarrow> (jsstr \<times> jsstr) list \<Rightarrow> ('v, 'w) state \<Rightarrow> 'v response \<times> ('v, 'w) state" where
  "request sf vfsMethods exec p endpoint r userGroups fs files s =
     (case sanitizeFields sf [js ''path'', js ''from'', js ''to'', js ''root''] fs of
        Inl e \<Rightarrow> (Uncaught e, s)
      | Inr fs' \<Rightarrow>
          (case dispatch vfsMethods exec p endpoint r userGroups fs' files s of
             (Inr res, s') \<Rightarrow>
               (if endpoint = js ''readfile'' then Stream res else Json res,
                if endpoint = js ''writefile''
                then s'\<lparr>removed := removed s' @ map snd files\<rparr> else s')
           | (Inl e, s') \<Rightarrow> (respondError e, s'\<lparr>logged := logged s' @ [e]\<rparr>)))"

section \<open>Examples\<close>

text \<open>
  A provider with two adapters and four mountpoints: \<open>a\<close> names no adapter, \<open>s\<close>
  names the system adapter, \<open>b\<close> and the read-only \<open>r\<close> name the cloud adapter.
\<close>

definition systemAdapter :: adapter_obj where
  "systemAdapter = \<lparr>handle = 0, operations = [js ''readfile'', js ''writefile'', js ''unlink'',
                                              js ''rename'', js ''copy'']\<rparr>"

definition cloudAdapter :: adapter_obj where
  "cloudAdapter = \<lparr>handle = 1, operations = [js ''readfile'', js ''writefile'', js ''unlink'',
                                            js ''copy'']\<rparr>"

definition mountA :: mountpoint where
  "mountA = \<lparr>name = js ''a'', adapter = None, attributes = \<lparr>groups = [], readOnly = False\<rparr>\<rparr>"

definition mountS :: mountpoint where
  "mountS = \<lparr>name = js ''s'', adapter = Some (js ''system''),
             attributes = \<lparr>groups = [], readOnly = False\<rparr>\<rparr>"

definition mountB :: mountpoint where
  "mountB = \<lparr>name = js ''b'', adapter = Some (js ''cloud''),
             attributes = \<lparr>groups = [], readOnly = False\<rparr>\<rparr>"

definition mountR :: mountpoint where
  "mountR = \<lparr>name = js ''r'', adapter = Some (js ''cloud''),
             attributes = \<lparr>groups = [], readOnly = True\<rparr>\<rparr>"

definition mountW :: mountpoint where
  "mountW = \<lparr>name = js ''w'', adapter = None,
             attributes = \<lparr>groups = [PerMethod [(js ''write'', [js ''admins''])]], readOnly = False\<rparr>\<rparr>"

definition mountU :: mountpoint where
  "mountU = \<lparr>name = js ''undefined'', adapter = None,
             attributes = \<lparr>groups = [], readOnly = False\<rparr>\<rparr>"

definition mountTwo :: mountpoint where
  "mountTwo = \<lparr>name = js ''t'', adapter = None,
               attributes = \<lparr>groups = [PerMethod [(js ''write'', [])],
                                       PerMethod [(js ''write'', [js ''admins''])]],
                             readOnly = False\<rparr>\<rparr>"

definition exampleProvider :: provider where
  "exampleProvider = \<lparr>mountpoints = [mountA, mountS, mountB, mountR],
                      adapters = [(js ''system'', systemAdapter), (js ''cloud'', cloudAdapter)]\<rparr>"

definition providerU :: provider where
  "providerU = \<lparr>mountpoints = [mountU, mountB],
                adapters = [(js ''system'', systemAdapter), (js ''cloud'', cloudAdapter)]\<rparr>"

definition exampleMethods :: "jsstr list" where
  "exampleMethods = [js ''readfile'', js ''writefile'', js ''unlink'', js ''rename'', js ''copy'']"

text \<open>A handler behaviour that counts the calls and yields the count.\<close>

definition countingExec :: "(nat, nat) exec" where
  "countingExec c w = (Inr w, Suc w)"

text \<open>The same, except that writing is refused.\<close>

definition refusingExec :: "(nat, nat) exec" where
  "refusingExec c w =
     (if cmethod c = js ''writefile''
      then (Inl (External (StrCode (js ''EACCES'')) (js ''Error: EACCES: permission denied'')), Suc w)
      else (Inr w, Suc w))"

text \<open>A handler behaviour that fails every call with the given error.\<close>

definition rejectingExec :: "error \<Rightarrow> (nat, nat) exec" where
  "rejectingExec e c w = (Inl e, Suc w)"

definition emptyState :: "(nat, nat) state" where
  "emptyState = \<lparr>calls = [], removed = [], logged = [], world = 0\<rparr>"

section \<open>Splitting, joining and collapsing\<close>

lemma splitOn_nonempty: "splitOn sep s \<noteq> []"
  by (induction s) (auto split: list.splits)



lemma collapse_notslash: "c \<noteq> slash \<Longrightarrow> collapseSlashes (c # cs) = c # collapseSlashes cs"
  by (cases cs) auto

lemma collapse_head: "\<exists>t. collapseSlashes (c # cs) = c # t"
  by (induction cs arbitrary: c) auto

lemma collapse_idem: "collapseSlashes (collapseSlashes s) = collapseSlashes s"
proof (induction s rule: collapseSlashes.induct)
  case (3 c d cs)
  obtain t where t: "collapseSlashes (d # cs) = d # t" using collapse_head by blast
  show ?case
  proof (cases "c = slash \<and> d = slash")
    case True
    with 3 show ?thesis by simp
  next
    case False
    with 3 have "collapseSlashes (d # t) = d # t" using t by simp
    with False t show ?thesis by auto
  qed
qed simp_all

lemma collapse_set: "set (collapseSlashes s) \<subseteq> set s"
  by (induction s rule: collapseSlashes.induct) auto

lemma collapse_length: "length (collapseSlashes s) \<le> length s"
  by (induction s rule: collapseSlashes.induct) auto

lemma join_split: "joinWith sep (splitOn sep s) = s"
proof (induction s)
  case (Cons c s)
  obtain x xs where x: "splitOn sep s = x # xs" using splitOn_nonempty by (cases "splitOn sep s") auto
  with Cons show ?case by (cases xs) auto
qed simp

lemma join_length: "length (joinWith sep ys) = sum_list (map length ys) + (length ys - 1)"
  by (induction sep ys rule: joinWith.induct) auto

lemma splitOn_append_noSep:
  "sep \<notin> set y \<Longrightarrow> splitOn sep (y @ s) = (y @ hd (splitOn sep s)) # tl (splitOn sep s)"
proof (induction y)
  case Nil
  show ?case using splitOn_nonempty [of sep s] by simp
next
  case (Cons a y)
  then show ?case by simp
qed

lemma splitOn_noSep: "sep \<notin> set y \<Longrightarrow> splitOn sep y = [y]"
  using splitOn_append_noSep [of sep y "[]"] by simp

lemma split_join:
  "ys \<noteq> [] \<Longrightarrow> \<forall>y\<in>set ys. sep \<notin> set y \<Longrightarrow> splitOn sep (joinWith sep ys) = ys"
proof (induction ys rule: joinWith.induct)
  case (1 sep)
  then show ?case by simp
next
  case (2 sep x)
  then show ?case by (simp add: splitOn_noSep)
next
  case (3 sep x y ys)
  then have "splitOn sep (joinWith sep (y # ys)) = y # ys" by simp
  moreover have "sep \<notin> set x" using 3 by simp
  ultimately show ?case by (simp add: splitOn_append_noSep)
qed

lemma split_segments: "x \<in> set (splitOn sep s) \<Longrightarrow> set x \<subseteq> set s \<and> sep \<notin> set x"
proof (induction s arbitrary: x)
  case Nil
  then show ?case by simp
next
  case (Cons c s)
  obtain y ys where y: "splitOn sep s = y # ys" using splitOn_nonempty by (cases "splitOn sep s") auto
  show ?case
  proof (cases "c = sep")
    case True
    with Cons show ?thesis by auto
  next
    case False
    with Cons.prems y have "x = c # y \<or> x \<in> set ys" by auto
    then show ?thesis
    proof
      assume "x = c # y"
      moreover have "set y \<subseteq> set s \<and> sep \<notin> set y" using Cons.IH [of y] y by simp
      ultimately show ?thesis using False by auto
    next
      assume "x \<in> set ys"
      then have "set x \<subseteq> set s \<and> sep \<notin> set x" using Cons.IH [of x] y by simp
      then show ?thesis by auto
    qed
  qed
qed

lemma join_set: "set (joinWith sep ys) \<subseteq> insert sep (\<Union>(set ` set ys))"
  by (induction ys rule: joinWith.induct) auto

lemma hd_tl_subset:
  "hd xs = hd ys \<Longrightarrow> set (tl xs) \<subseteq> set (tl ys) \<Longrightarrow> xs \<noteq> [] \<Longrightarrow> ys \<noteq> [] \<Longrightarrow> set xs \<subseteq> set ys"
  by (cases xs; cases ys) auto

lemma split_collapse_hd_tl:
  "hd (splitOn slash (collapseSlashes s)) = hd (splitOn slash s) \<and>
   set (tl (splitOn slash (collapseSlashes s))) \<subseteq> set (tl (splitOn slash s))"
proof (induction s rule: collapseSlashes.induct)
  case 1
  show ?case by simp
next
  case (2 c)
  show ?case by simp
next
  case (3 c d cs)
  let ?X = "collapseSlashes (d # cs)"
  have ne: "splitOn slash ?X \<noteq> []" "splitOn slash (d # cs) \<noteq> []" by (rule splitOn_nonempty)+
  show ?case
  proof (cases "c = slash")
    case True
    show ?thesis
    proof (cases "d = slash")
      case True
      with \<open>c = slash\<close> 3 show ?thesis by auto
    next
      case False
      with True 3 have ih: "hd (splitOn slash ?X) = hd (splitOn slash (d # cs))"
        "set (tl (splitOn slash ?X)) \<subseteq> set (tl (splitOn slash (d # cs)))" by auto
      have "set (splitOn slash ?X) \<subseteq> set (splitOn slash (d # cs))"
        using ih ne by (rule_tac hd_tl_subset)
      with True False show ?thesis by simp
    qed
  next
    case False
    with 3 have ih: "hd (splitOn slash ?X) = hd (splitOn slash (d # cs))"
      "set (tl (splitOn slash ?X)) \<subseteq> set (tl (splitOn slash (d # cs)))" by auto
    have a: "collapseSlashes (c # d # cs) = c # ?X" using False by simp
    have "splitOn slash (c # ?X) = (c # hd (splitOn slash ?X)) # tl (splitOn slash ?X)"
      using False ne by (cases "splitOn slash ?X") auto
    moreover have "splitOn slash (c # d # cs) = (c # hd (splitOn slash (d # cs))) # tl (splitOn slash (d # cs))"
      using False ne by (cases "splitOn slash (d # cs)") auto
    ultimately show ?thesis using ih a by simp
  qed
qed

lemma split_collapse: "set (splitOn slash (collapseSlashes s)) \<subseteq> set (splitOn slash s)"
proof (rule hd_tl_subset)
  show "hd (splitOn slash (collapseSlashes s)) = hd (splitOn slash s)"
    using split_collapse_hd_tl [of s] by (rule conjunct1)
  show "set (tl (splitOn slash (collapseSlashes s))) \<subseteq> set (tl (splitOn slash s))"
    using split_collapse_hd_tl [of s] by (rule conjunct2)
  show "splitOn slash (collapseSlashes s) \<noteq> []" by (rule splitOn_nonempty)
  show "splitOn slash s \<noteq> []" by (rule splitOn_nonempty)
qed

lemma sum_list_strict:
  "\<forall>z\<in>set zs. f z \<le> (g z :: nat) \<Longrightarrow> \<exists>z\<in>set zs. f z < g z \<Longrightarrow>
   sum_list (map f zs) < sum_list (map g zs)"
proof (induction zs)
  case Nil
  then show ?case by simp
next
  case (Cons a zs)
  have le: "sum_list (map f zs) \<le> sum_list (map g zs)"
    using Cons.prems(1) by (intro sum_list_mono) simp
  show ?case
  proof (cases "f a < g a")
    case True
    with le show ?thesis by simp
  next
    case False
    with Cons.prems have "\<exists>z\<in>set zs. f z < g z" by auto
    moreover from Cons.prems(1) have "\<forall>z\<in>set zs. f z \<le> g z" by simp
    ultimately have "sum_list (map f zs) < sum_list (map g zs)" by (rule Cons.IH [rotated])
    moreover from Cons.prems(1) have "f a \<le> g a" by simp
    ultimately show ?thesis by simp
  qed
qed

section \<open>The match of a path\<close>

lemma word_not_slash: "isWordChar c \<Longrightarrow> c \<noteq> slash"
  by (auto simp: isWordChar_def slash_def)

lemma word_not_colon: "\<not> isWordChar colon"
  by (simp add: isWordChar_def colon_def)

lemma collapse_words:
  "\<forall>c\<in>set n. c \<noteq> slash \<Longrightarrow> collapseSlashes (n @ colon # x) = n @ colon # collapseSlashes x"
proof (induction n)
  case Nil
  show ?case by (simp add: collapse_notslash colon_def slash_def)
next
  case (Cons a n)
  then show ?case by (simp add: collapse_notslash)
qed

lemma collapse_takeWhile: "takeWhile isWordChar (collapseSlashes s) = takeWhile isWordChar s"
proof (induction s rule: collapseSlashes.induct)
  case (3 c d cs)
  then show ?case by (auto simp: isWordChar_def slash_def)
qed simp_all

lemma collapse_dropWhile: "dropWhile isWordChar (collapseSlashes s) = collapseSlashes (dropWhile isWordChar s)"
proof (induction s)
  case (Cons c s)
  show ?case
  proof (cases "isWordChar c")
    case True
    with Cons show ?thesis by (simp add: collapse_notslash word_not_slash)
  next
    case False
    obtain t where "collapseSlashes (c # s) = c # t" using collapse_head by blast
    with False show ?thesis by simp
  qed
qed simp

lemma matchPath_collapse_None:
  "(matchPath (collapseSlashes v) = None) =
   (\<not> (\<exists>n rest. n \<noteq> [] \<and> (\<forall>c\<in>set n. isWordChar c) \<and> v = n @ colon # rest))"
proof
  assume N: "matchPath (collapseSlashes v) = None"
  show "\<not> (\<exists>n rest. n \<noteq> [] \<and> (\<forall>c\<in>set n. isWordChar c) \<and> v = n @ colon # rest)"
  proof
    assume "\<exists>n rest. n \<noteq> [] \<and> (\<forall>c\<in>set n. isWordChar c) \<and> v = n @ colon # rest"
    then obtain n rest where n: "n \<noteq> []" "\<forall>c\<in>set n. isWordChar c" and v: "v = n @ colon # rest"
      by blast
    from n have c: "collapseSlashes v = n @ colon # collapseSlashes rest"
      unfolding v by (intro collapse_words) (auto dest: word_not_slash)
    have "takeWhile isWordChar (n @ colon # collapseSlashes rest) = n"
      using n by (simp add: takeWhile_append2 word_not_colon)
    moreover have "dropWhile isWordChar (n @ colon # collapseSlashes rest) = colon # collapseSlashes rest"
      using n by (simp add: dropWhile_append2 word_not_colon)
    ultimately have "matchPath (collapseSlashes v) \<noteq> None"
      using n by (simp add: matchPath_def c)
    with N show False by simp
  qed
next
  assume A: "\<not> (\<exists>n rest. n \<noteq> [] \<and> (\<forall>c\<in>set n. isWordChar c) \<and> v = n @ colon # rest)"
  show "matchPath (collapseSlashes v) = None"
  proof (rule ccontr)
    assume "matchPath (collapseSlashes v) \<noteq> None"
    then obtain t where ne: "takeWhile isWordChar v \<noteq> []"
      and d: "collapseSlashes (dropWhile isWordChar v) = colon # t"
      by (auto simp: matchPath_def Let_def collapse_takeWhile collapse_dropWhile
               split: list.splits if_splits)
    from d obtain rest where r: "dropWhile isWordChar v = colon # rest"
      using collapse_head [of _ _] by (cases "dropWhile isWordChar v") (auto, metis collapse_head list.inject)
    have "v = takeWhile isWordChar v @ colon # rest"
      using r takeWhile_dropWhile_id [of isWordChar v] by simp
    moreover have "\<forall>c\<in>set (takeWhile isWordChar v). isWordChar c"
      by (auto dest: set_takeWhileD)
    ultimately show False using A ne by blast
  qed
qed

lemma matchPath_Some:
  "matchPath s = Some (n, str) \<Longrightarrow>
   n \<noteq> [] \<and> (\<forall>c\<in>set n. isWordChar c) \<and> (\<forall>c\<in>set str. \<not> isLineTerminator c)"
  by (auto simp: matchPath_def Let_def split: list.splits if_splits dest: set_takeWhileD)

lemma matchPath_built:
  "n \<noteq> [] \<Longrightarrow> \<forall>c\<in>set n. isWordChar c \<Longrightarrow> \<forall>c\<in>set x. \<not> isLineTerminator c \<Longrightarrow>
   matchPath (n @ colon # x) = Some (n, x)"
proof -
  assume n: "n \<noteq> []" "\<forall>c\<in>set n. isWordChar c" and x: "\<forall>c\<in>set x. \<not> isLineTerminator c"
  have "takeWhile isWordChar (n @ colon # x) = n"
    using n by (simp add: takeWhile_append2 word_not_colon)
  moreover have "dropWhile isWordChar (n @ colon # x) = colon # x"
    using n by (simp add: dropWhile_append2 word_not_colon)
  moreover have "takeWhile (\<lambda>c. \<not> isLineTerminator c) x = x"
    using x by (simp add: takeWhile_eq_all_conv)
  ultimately show ?thesis using n by (simp add: matchPath_def)
qed

lemma sanitize_error: "sanitize sf v = Inl e \<Longrightarrow> e = splitTypeError"
  by (auto simp: sanitize_def Let_def split: option.splits)


section \<open>The filename sanitizer\<close>

lemma truncate_head: "truncateBytes n (c # cs) = [] \<or> (\<exists>t. truncateBytes n (c # cs) = c # t)"
  by (cases cs) auto

lemma truncate_set: "set (truncateBytes n s) \<subseteq> set s"
  by (induction n s rule: truncateBytes.induct) auto

lemma truncate_length: "length (truncateBytes n s) \<le> length s"
  by (induction n s rule: truncateBytes.induct) auto

lemma truncate_idem: "truncateBytes n (truncateBytes n s) = truncateBytes n s"
proof (induction n s rule: truncateBytes.induct)
  case (1 n)
  show ?case by simp
next
  case (2 n c)
  show ?case by simp
next
  case (3 n c d cs)
  show ?case
  proof (cases "isHighSurrogate c \<and> isLowSurrogate d")
    case True
    with 3 show ?thesis by simp
  next
    case False
    show ?thesis
    proof (cases "unitBytes c \<le> n")
      case fits: True
      let ?T = "truncateBytes (n - unitBytes c) (d # cs)"
      from 3 False fits have ih: "truncateBytes (n - unitBytes c) ?T = ?T" by auto
      have r: "truncateBytes n (c # d # cs) = c # ?T" using False fits by auto
      from truncate_head [of "n - unitBytes c" d cs] show ?thesis
      proof
        assume "?T = []"
        with r fits show ?thesis by simp
      next
        assume "\<exists>t. ?T = d # t"
        then obtain t where t: "?T = d # t" by blast
        have "truncateBytes n (c # d # t) = c # truncateBytes (n - unitBytes c) (d # t)"
          using False fits by auto
        with ih t r show ?thesis by simp
      qed
    next
      case False
      with \<open>\<not> (isHighSurrogate c \<and> isLowSurrogate d)\<close> show ?thesis by auto
    qed
  qed
qed

lemma stripTrailing_set: "set (stripTrailing s) \<subseteq> set s"
  unfolding stripTrailing_def using set_dropWhileD by fastforce

lemma stripTrailing_dots: "list_all (\<lambda>c. c = 46) s \<Longrightarrow> stripTrailing s = []"
  by (simp add: stripTrailing_def list_all_iff)

lemma stripTrailing_length: "length (stripTrailing s) \<le> length s"
  by (simp add: stripTrailing_def length_dropWhile_le [of _ "rev s", simplified])

lemma stripTrailing_shorter: "stripTrailing s \<noteq> s \<Longrightarrow> length (stripTrailing s) < length s"
proof (rule ccontr)
  let ?P = "\<lambda>c. c = 46 \<or> c = (32::nat)"
  assume ne: "stripTrailing s \<noteq> s" and "\<not> length (stripTrailing s) < length s"
  with stripTrailing_length [of s] have "length (dropWhile ?P (rev s)) = length (rev s)"
    by (simp add: stripTrailing_def)
  moreover have "length (takeWhile ?P (rev s)) + length (dropWhile ?P (rev s)) = length (rev s)"
    using takeWhile_dropWhile_id [of ?P "rev s"] by (metis length_append)
  ultimately have "takeWhile ?P (rev s) = []" by simp
  with takeWhile_dropWhile_id [of ?P "rev s"] have "dropWhile ?P (rev s) = rev s" by simp
  then have "stripTrailing s = s" by (simp add: stripTrailing_def)
  with ne show False by simp
qed

lemma reserved_nonempty: "windowsReserved z \<Longrightarrow> z \<noteq> []"
  by (auto simp: windowsReserved_def js_def)

lemma sanitizeFilename_set: "set (sanitizeFilename x) \<subseteq> {c \<in> set x. \<not> illegalChar c \<and> \<not> controlChar c}"
proof -
  let ?s2 = "filter (\<lambda>c. \<not> controlChar c) (filter (\<lambda>c. \<not> illegalChar c) x)"
  have "\<exists>u. sanitizeFilename x = truncateBytes 255 (stripTrailing u) \<and> set u \<subseteq> set ?s2"
    by (auto simp: sanitizeFilename_def Let_def)
  then obtain u where u: "sanitizeFilename x = truncateBytes 255 (stripTrailing u)"
    and s: "set u \<subseteq> set ?s2" by blast
  have "set (sanitizeFilename x) \<subseteq> set u"
    unfolding u using truncate_set stripTrailing_set by (meson subset_trans)
  with s show ?thesis by auto
qed

lemma sanitizeFilename_length: "length (sanitizeFilename x) \<le> length x"
proof -
  let ?s2 = "filter (\<lambda>c. \<not> controlChar c) (filter (\<lambda>c. \<not> illegalChar c) x)"
  have "\<exists>u. sanitizeFilename x = truncateBytes 255 (stripTrailing u) \<and> length u \<le> length ?s2"
    by (auto simp: sanitizeFilename_def Let_def)
  then obtain u where u: "sanitizeFilename x = truncateBytes 255 (stripTrailing u)"
    and l: "length u \<le> length ?s2" by blast
  have a: "length ?s2 \<le> length x"
    by (rule le_trans [OF length_filter_le length_filter_le])
  from l a truncate_length [of 255 "stripTrailing u"] stripTrailing_length [of u] show ?thesis
    unfolding u by linarith
qed

text \<open>
  A name that the sanitizer has produced is left as it is by a second pass, unless it is
  reserved on Windows or ends in a dot or a space.
\<close>

lemma sanitizeFilename_fixed:
  assumes z: "z = sanitizeFilename x" and r: "\<not> windowsReserved z" and t: "stripTrailing z = z"
  shows "sanitizeFilename z = z"
proof -
  have clean: "\<forall>c\<in>set z. \<not> illegalChar c \<and> \<not> controlChar c"
    using sanitizeFilename_set [of x] z by auto
  then have f: "filter (\<lambda>c. \<not> controlChar c) (filter (\<lambda>c. \<not> illegalChar c) z) = z"
    by (simp add: filter_id_conv)
  have dots: "\<not> (z \<noteq> [] \<and> list_all (\<lambda>c. c = 46) z)"
  proof
    assume a: "z \<noteq> [] \<and> list_all (\<lambda>c. c = 46) z"
    then have "stripTrailing z = []" by (simp add: stripTrailing_dots)
    with t a show False by simp
  qed
  have "\<exists>u. z = truncateBytes 255 u" using z by (auto simp: sanitizeFilename_def Let_def)
  then have cut: "truncateBytes 255 z = z" using truncate_idem by auto
  show ?thesis
    unfolding sanitizeFilename_def Let_def f using dots r t cut by auto
qed

text \<open>
  A name that the sanitizer has produced and that is reserved on Windows or ends in a
  dot or a space is made shorter by a second pass.
\<close>

lemma sanitizeFilename_shorter:
  assumes z: "z = sanitizeFilename x" and bad: "windowsReserved z \<or> stripTrailing z \<noteq> z"
  shows "length (sanitizeFilename z) < length z"
proof -
  have clean: "\<forall>c\<in>set z. \<not> illegalChar c \<and> \<not> controlChar c"
    using sanitizeFilename_set [of x] z by auto
  then have f: "filter (\<lambda>c. \<not> controlChar c) (filter (\<lambda>c. \<not> illegalChar c) z) = z"
    by (simp add: filter_id_conv)
  from bad have ne: "z \<noteq> []"
  proof
    assume "windowsReserved z"
    then show ?thesis by (rule reserved_nonempty)
  next
    assume "stripTrailing z \<noteq> z"
    then show ?thesis by (auto simp: stripTrailing_def)
  qed
  have empty: "truncateBytes 255 (stripTrailing []) = []" by (simp add: stripTrailing_def)
  show ?thesis
  proof (cases "list_all (\<lambda>c. c = 46) z \<or> windowsReserved z")
    case True
    then have "sanitizeFilename z = []"
      unfolding sanitizeFilename_def Let_def f using ne empty by auto
    with ne show ?thesis by simp
  next
    case False
    then have "sanitizeFilename z = truncateBytes 255 (stripTrailing z)"
      unfolding sanitizeFilename_def Let_def f by auto
    moreover from False bad have "length (stripTrailing z) < length z"
      by (auto intro: stripTrailing_shorter)
    ultimately show ?thesis using truncate_length [of 255 "stripTrailing z"] by simp
  qed
qed

section \<open>The shape of a sanitized path\<close>

lemma sanitize_shape:
  assumes p: "sanitize sf p = Inr q"
    and safe: "\<forall>x. (\<forall>c\<in>set x. c \<noteq> slash \<and> \<not> isLineTerminator c) \<longrightarrow>
                   (\<forall>c\<in>set (sf x). c \<noteq> slash \<and> \<not> isLineTerminator c)"
  shows "\<exists>n sane. q = n @ colon # sane \<and> matchPath (collapseSlashes q) = Some (n, sane) \<and>
           collapseSlashes sane = sane \<and> pathSegments q = splitOn slash sane \<and>
           set (splitOn slash sane) \<subseteq> range sf"
proof -
  from p obtain n str where m: "matchPath (collapseSlashes p) = Some (n, str)"
    and q: "q = n @ colon # collapseSlashes (joinWith slash (map sf (splitOn slash str)))"
    by (auto simp: sanitize_def Let_def split: option.splits)
  let ?ys = "map sf (splitOn slash str)"
  let ?sane = "collapseSlashes (joinWith slash ?ys)"
  from m have n: "n \<noteq> []" "\<forall>c\<in>set n. isWordChar c" and str: "\<forall>c\<in>set str. \<not> isLineTerminator c"
    using matchPath_Some by blast+
  have ys: "\<forall>y\<in>set ?ys. \<forall>c\<in>set y. c \<noteq> slash \<and> \<not> isLineTerminator c"
  proof
    fix y assume "y \<in> set ?ys"
    then obtain x where x: "x \<in> set (splitOn slash str)" and y: "y = sf x" by auto
    from x have "set x \<subseteq> set str \<and> slash \<notin> set x" by (rule split_segments)
    with str have "\<forall>c\<in>set x. c \<noteq> slash \<and> \<not> isLineTerminator c" by blast
    moreover from safe have "(\<forall>c\<in>set x. c \<noteq> slash \<and> \<not> isLineTerminator c) \<longrightarrow>
                   (\<forall>c\<in>set (sf x). c \<noteq> slash \<and> \<not> isLineTerminator c)" by (rule spec)
    ultimately show "\<forall>c\<in>set y. c \<noteq> slash \<and> \<not> isLineTerminator c" unfolding y by (rule rev_mp)
  qed
  have ys_ne: "?ys \<noteq> []" using splitOn_nonempty by simp
  have noslash: "\<forall>y\<in>set ?ys. slash \<notin> set y" using ys by blast
  from ys_ne noslash have sj: "splitOn slash (joinWith slash ?ys) = ?ys" by (rule split_join)
  have sane_lt: "\<forall>c\<in>set ?sane. \<not> isLineTerminator c"
  proof
    fix c assume "c \<in> set ?sane"
    then have "c \<in> set (joinWith slash ?ys)" using collapse_set by blast
    then have "c = slash \<or> (\<exists>y\<in>set ?ys. c \<in> set y)" using join_set [of slash ?ys] by auto
    then show "\<not> isLineTerminator c"
    proof
      assume "c = slash"
      then show ?thesis by (simp add: isLineTerminator_def slash_def)
    next
      assume "\<exists>y\<in>set ?ys. c \<in> set y"
      with ys show ?thesis by blast
    qed
  qed
  have cq: "collapseSlashes q = q"
    unfolding q using n by (simp add: collapse_words word_not_slash collapse_idem)
  have mq: "matchPath q = Some (n, ?sane)"
    unfolding q using n sane_lt by (rule matchPath_built)
  have "\<forall>c\<in>set n. c \<noteq> colon" using n word_not_colon by blast
  then have "dropWhile (\<lambda>c. c \<noteq> colon) (n @ colon # ?sane) = colon # ?sane"
    by (simp add: dropWhile_append2)
  then have ps: "pathSegments q = splitOn slash ?sane" by (simp add: pathSegments_def q)
  have "set (splitOn slash ?sane) \<subseteq> set ?ys"
    using split_collapse [of "joinWith slash ?ys"] sj by simp
  then have rng: "set (splitOn slash ?sane) \<subseteq> range sf" by auto
  from q cq mq ps rng collapse_idem [of "joinWith slash ?ys"] show ?thesis by auto
qed

section \<open>Sanitizing the fields\<close>

lemma fieldOf_update:
  "fieldOf (AList.update k v fs) k' = (if k' = k then v else fieldOf fs k')"
  by (simp add: fieldOf_def update_conv')

lemma sanitizeField_error: "sanitizeField sf key fs = Inl e \<Longrightarrow> e = splitTypeError"
  by (auto simp: sanitizeField_def split: jsval.splits sum.splits dest: sanitize_error)

lemma sanitizeField_other:
  "sanitizeField sf key fs = Inr fs' \<Longrightarrow> k \<noteq> key \<Longrightarrow> fieldOf fs' k = fieldOf fs k"
  by (auto simp: sanitizeField_def fieldOf_update split: jsval.splits sum.splits)

lemma sanitizeField_bad:
  "fieldOf fs key = Str v \<Longrightarrow> sanitize sf v = Inl splitTypeError \<Longrightarrow>
   sanitizeField sf key fs = Inl splitTypeError"
  by (simp add: sanitizeField_def)

lemma sanitizeFields_bad:
  "k \<in> set keys \<Longrightarrow> fieldOf fs k = Str v \<Longrightarrow> sanitize sf v = Inl splitTypeError \<Longrightarrow>
   sanitizeFields sf keys fs = Inl splitTypeError"
proof (induction keys arbitrary: fs)
  case Nil
  then show ?case by simp
next
  case (Cons key keys)
  show ?case
  proof (cases "sanitizeField sf key fs")
    case (Inl e)
    then have "e = splitTypeError" by (rule sanitizeField_error)
    with Inl show ?thesis by simp
  next
    case (Inr fs')
    have ne: "k \<noteq> key"
    proof
      assume "k = key"
      with Cons.prems have "sanitizeField sf key fs = Inl splitTypeError"
        by (simp add: sanitizeField_bad)
      with Inr show False by simp
    qed
    with Inr have "fieldOf fs' k = fieldOf fs k" by (rule sanitizeField_other)
    with Cons ne have "sanitizeFields sf keys fs' = Inl splitTypeError" by simp
    with Inr show ?thesis by simp
  qed
qed

section \<open>The groups of a mountpoint\<close>

lemma named_concat: "set (concat (map nameOf (filter isNamed gs))) = {n. Named n \<in> set gs}"
proof (induction gs)
  case Nil
  then show ?case by simp
next
  case (Cons g gs)
  then show ?case by (cases g) auto
qed

lemma hasMethod_own:
  "op \<notin> set inheritedNames \<Longrightarrow> hasMethod op g = (\<exists>d gs. g = PerMethod d \<and> map_of d op = Some gs)"
  by (cases g) auto

lemma first_entry:
  assumes "op \<notin> set inheritedNames"
  shows "(find (hasMethod op) G = Some g) =
     (\<exists>i d gs. i < length G \<and> G ! i = PerMethod d \<and> g = PerMethod d \<and> map_of d op = Some gs \<and>
        (\<forall>j<i. \<forall>d'. G ! j = PerMethod d' \<longrightarrow> map_of d' op = None))"
  (is "?L = ?R")
proof
  assume ?L
  then obtain i where i: "i < length G" and h: "hasMethod op (G ! i)" and g: "g = G ! i"
    and first: "\<forall>j<i. \<not> hasMethod op (G ! j)"
    by (auto simp: find_Some_iff)
  from h obtain d gs where d: "G ! i = PerMethod d" and m: "map_of d op = Some gs"
    using hasMethod_own [OF assms] by blast
  have "\<forall>j<i. \<forall>d'. G ! j = PerMethod d' \<longrightarrow> map_of d' op = None"
  proof (intro allI impI)
    fix j d' assume "j < i" and "G ! j = PerMethod d'"
    with first have "\<not> hasMethod op (PerMethod d')" by auto
    then show "map_of d' op = None" by simp
  qed
  with i d m g show ?R by auto
next
  assume ?R
  then obtain i d gs where i: "i < length G" and gi: "G ! i = PerMethod d" and g: "g = PerMethod d"
    and m: "map_of d op = Some gs"
    and first: "\<forall>j<i. \<forall>d'. G ! j = PerMethod d' \<longrightarrow> map_of d' op = None"
    by blast
  have "\<forall>j<i. \<not> hasMethod op (G ! j)"
  proof (intro allI impI)
    fix j assume "j < i"
    with first assms show "\<not> hasMethod op (G ! j)"
      by (cases "G ! j") auto
  qed
  with i gi m g show ?L by (auto simp: find_Some_iff)
qed

section \<open>The resolver\<close>

lemma notFound_distinct:
  "notFound x \<noteq> isReadOnly y" "notFound x \<noteq> denied e y" "notFound x \<noteq> notValid e"
  "notFound x \<noteq> TypeError t" "isReadOnly y \<noteq> denied e z" "isReadOnly y \<noteq> notValid e"
  "isReadOnly y \<noteq> TypeError t" "notFound x \<noteq> everyTypeError" "isReadOnly y \<noteq> everyTypeError"
  by (simp_all add: notFound_def isReadOnly_def denied_def notValid_def everyTypeError_def js_def
      quote_def)

lemma validateGroups_error: "validateGroups ug ep m = Inl e \<Longrightarrow> e = everyTypeError"
proof -
  have a: "allUnder ep g ug = Inl e' \<Longrightarrow> e' = everyTypeError" for g e'
    by (cases g) (auto split: option.splits)
  assume "validateGroups ug ep m = Inl e"
  then show ?thesis
    by (auto simp: validateGroups_def Let_def split: if_splits option.splits sum.splits dest: a)
qed

text \<open>The resolver, step by step, with the prefix it works on.\<close>

lemma resolve_steps:
  "resolveMountpoint vm p ep fs ug r =
     (let pre = getPrefix (fieldOf fs (case find (\<lambda>key. key \<in> set known) (map fst fs) of
                                        None \<Rightarrow> js ''undefined'' | Some k \<Rightarrow> k)) in
      case (if pre \<noteq> [] then find (\<lambda>m. name m = pre) (mountpoints p) else None) of
        None \<Rightarrow> Inl (notFound pre)
      | Some m \<Rightarrow>
          if checkReadOnly r m fs then Inl (isReadOnly pre)
          else (case validateGroups ug ep m of
                  Inl e \<Rightarrow> Inl e
                | Inr valid \<Rightarrow>
                    if \<not> valid then Inl (denied ep pre)
                    else if ep \<notin> set vm then Inl (notValid ep)
                    else (case getAdapter p m of
                            None \<Rightarrow> Inl (TypeError (js ''Cannot read property '' @ quote # ep @ quote #
                                                   js '' of undefined''))
                          | Some a \<Rightarrow> if ep \<notin> set (operations a)
                                      then Inl (notValid ep) else Inr (a, m))))"
  by (simp add: resolveMountpoint_def Let_def)

lemma path_prefix:
  "getPrefix (fieldOf [(js ''path'', v)] (case find (\<lambda>key. key \<in> set known) (map fst [(js ''path'', v)]) of
                                        None \<Rightarrow> js ''undefined'' | Some k \<Rightarrow> k)) = getPrefix v"
  by (simp add: known_def fieldOf_def)

lemma resolve_path:
  "resolveMountpoint vm p ep [(js ''path'', v)] ug r =
     (case (if getPrefix v \<noteq> [] then find (\<lambda>m. name m = getPrefix v) (mountpoints p) else None) of
        None \<Rightarrow> Inl (notFound (getPrefix v))
      | Some m \<Rightarrow>
          if checkReadOnly r m [(js ''path'', v)] then Inl (isReadOnly (getPrefix v))
          else (case validateGroups ug ep m of
                  Inl e \<Rightarrow> Inl e
                | Inr valid \<Rightarrow>
                    if \<not> valid then Inl (denied ep (getPrefix v))
                    else if ep \<notin> set vm then Inl (notValid ep)
                    else (case getAdapter p m of
                            None \<Rightarrow> Inl (TypeError (js ''Cannot read property '' @ quote # ep @ quote #
                                                   js '' of undefined''))
                          | Some a \<Rightarrow> if ep \<notin> set (operations a)
                                      then Inl (notValid ep) else Inr (a, m))))"
  unfolding resolve_steps path_prefix Let_def by (rule refl)

lemma checkReadOnly_False: "\<not> checkReadOnly (RoBool False) m fs"
  by (simp add: checkReadOnly_def)

lemma resolve_source_not_readOnly:
  "resolveMountpoint vm p ep [(js ''path'', v)] ug (RoBool False) \<noteq> Inl (isReadOnly x)"
proof
  assume a: "resolveMountpoint vm p ep [(js ''path'', v)] ug (RoBool False) = Inl (isReadOnly x)"
  then show False
    by (auto simp: resolve_path checkReadOnly_False notFound_distinct notFound_distinct [symmetric]
        split: option.splits sum.splits if_splits dest!: validateGroups_error)
qed

lemma resolve_destination_readOnly:
  "getPrefix v \<noteq> [] \<Longrightarrow> find (\<lambda>m. name m = getPrefix v) (mountpoints p) = Some m \<Longrightarrow>
   readOnly (attributes m) \<Longrightarrow>
   resolveMountpoint vm p ep [(js ''path'', v)] ug (RoBool True) = Inl (isReadOnly (getPrefix v))"
  by (simp add: resolve_path checkReadOnly_def)

lemma resolved_adapter:
  "resolveMountpoint vm p ep [(js ''path'', v)] ug r = Inr (a, m) \<Longrightarrow> getAdapter p m = Some a"
  by (auto simp: resolve_path split: option.splits if_splits sum.splits)

lemma same_name_same_adapter:
  "adapter m = adapter m' \<Longrightarrow> getAdapter p m = getAdapter p m'"
  by (simp add: getAdapter_def)

section \<open>Rename and copy\<close>

lemma dispatch_rename_copy:
  assumes "endpoint = js ''rename'' \<or> endpoint = js ''copy''"
  shows "dispatch vm exec p endpoint r ug fs files s =
     (case resolveMountpoint vm p (js ''readfile'') [(js ''path'', fieldOf fs (js ''from''))] ug (RoBool False) of
        Inl e \<Rightarrow> (Inl (Wrapped e), s)
      | Inr (srcAdapter, srcMount) \<Rightarrow>
          (case resolveMountpoint vm p (js ''writefile'') [(js ''path'', fieldOf fs (js ''to''))] ug (RoBool True) of
             Inl e \<Rightarrow> (Inl (Wrapped e), s)
           | Inr (dstAdapter, dstMount) \<Rightarrow>
               if adapter srcMount \<noteq> adapter dstMount
               then transfer exec endpoint fs srcAdapter srcMount dstAdapter dstMount s
               else (case resolveMountpoint vm p endpoint fs ug r of
                       Inl e \<Rightarrow> (Inl (Wrapped e), s)
                     | Inr (a, m) \<Rightarrow>
                         andThen
                           (invoke exec \<lparr>cmethod = endpoint, cfields = fs,
                                         cfiles = map (\<lambda>(k, path). (k, TempFile path)) files,
                                         cadapter = a, cmount = m\<rparr> s)
                           (\<lambda>v s'. (Inr (Value v), s')))))"
  using assms by (auto simp: dispatch_def Let_def split: sum.splits)

lemma request_rename_copy:
  assumes "endpoint = js ''rename'' \<or> endpoint = js ''copy''"
    and "sanitizeFields sf [js ''path'', js ''from'', js ''to'', js ''root''] raw = Inr fs"
  shows "request sf vm exec p endpoint r ug raw files s =
     (case dispatch vm exec p endpoint r ug fs files s of
        (Inr res, s') \<Rightarrow> (Json res, s')
      | (Inl e, s') \<Rightarrow> (respondError e, s'\<lparr>logged := logged s' @ [e]\<rparr>))"
proof -
  from assms(1) have "endpoint \<noteq> js ''readfile''" "endpoint \<noteq> js ''writefile''"
    by (auto simp: js_def)
  with assms(2) show ?thesis
    by (simp add: request_def del: sanitizeFields.simps split: prod.splits sum.splits)
qed

text \<open>
  What becomes of an error of the resolver on the way to the client, for an endpoint
  other than \<open>rename\<close> and \<open>copy\<close>: it is wrapped, the wrapper has no code, and the
  status is 400 whatever code the error had.
\<close>

lemma resolution_failure_response:
  assumes "sanitizeFields sf [js ''path'', js ''from'', js ''to'', js ''root''] raw = Inr fs"
    and "\<not> (endpoint = js ''rename'' \<or> endpoint = js ''copy'')"
    and "resolveMountpoint vm p endpoint fs ug r = Inl e"
  shows "request sf vm exec p endpoint r ug raw files s =
     (Failed (StatusNum 400) (js ''Error: '' @ toString e), s\<lparr>logged := logged s @ [Wrapped e]\<rparr>)"
  using assms
  by (simp add: request_def dispatch_def respondError_def status_def errorCodes_def
      inheritedNames_def js_def del: sanitizeFields.simps)

section \<open>The status of a handler error\<close>

text \<open>
  The status for the codes that are no inherited names: a numeric code is the status,
  \<open>ENOENT\<close> and \<open>EACCES\<close> give 404 and 401, every other code and an error without
  code give 400. The body is the text of the error.
\<close>

lemma respondError_known_codes:
  "(respondError (External (NumCode n) t) :: 'v response) = Failed (StatusNum n) t"
  "(respondError (External (StrCode (js ''ENOENT'')) t) :: 'v response) = Failed (StatusNum 404) t"
  "(respondError (External (StrCode (js ''EACCES'')) t) :: 'v response) = Failed (StatusNum 401) t"
  "c \<noteq> js ''ENOENT'' \<Longrightarrow> c \<noteq> js ''EACCES'' \<Longrightarrow> c \<notin> set inheritedNames \<Longrightarrow>
     (respondError (External (StrCode c) t) :: 'v response) = Failed (StatusNum 400) t"
  "(respondError (External NoCode t) :: 'v response) = Failed (StatusNum 400) t"
  by (simp_all add: respondError_def status_def errorCodes_def) (simp_all add: js_def inheritedNames_def)

section \<open>Evaluating the examples\<close>

lemmas eval_defs =
  js_def colon_def slash_def quote_def isWordChar_def isLineTerminator_def matchPath_def
  sanitize_def sanitizeFilename_def illegalChar_def controlChar_def windowsReserved_def
  lowerAscii_def stripTrailing_def unitBytes_def isHighSurrogate_def isLowSurrogate_def
  pathSegments_def inheritedNames_def everyTypeError_def
  fieldOf_def sanitizeField_def getPrefix_def known_def
  checkReadOnly_def validateGroups_def all_in_def getAdapter_def resolveMountpoint_def
  notFound_def isReadOnly_def denied_def notValid_def errorCodes_def status_def
  respondError_def invoke_def andThen_def transfer_def dispatch_def request_def
  systemAdapter_def cloudAdapter_def mountA_def mountS_def mountB_def mountR_def mountW_def
  mountU_def mountTwo_def exampleProvider_def providerU_def exampleMethods_def countingExec_def
  refusingExec_def rejectingExec_def emptyState_def splitTypeError_def

section \<open>C1: the status of a failed resolution\<close>

text \<open>
  C1. Three requests that the resolver refuses. For \<open>ghost:/x\<close>, where no mountpoint
  \<open>ghost\<close> exists, it throws the error with code 403; for a write to the read-only
  mountpoint \<open>r\<close> the read-only error with code 403; for the endpoint \<open>mkdir\<close>, which
  has no handler, the error with code 401. Each time the \<^verbatim>\<open>catch\<close> block wraps the
  error in a new error, which has no code, and the response has status 400.
\<close>

theorem resolver_errors_status_400:
  "resolveMountpoint exampleMethods exampleProvider (js ''readfile'')
     [(js ''path'', Str (js ''ghost:/x''))] [] (RoBool False) = Inl (notFound (js ''ghost'')) \<and>
   code (notFound (js ''ghost'')) = NumCode 403 \<and>
   fst (request sanitizeFilename exampleMethods countingExec exampleProvider (js ''readfile'')
     (RoBool False) [] [(js ''path'', Str (js ''ghost:/x''))] [] emptyState) =
     Failed (StatusNum 400) (js ''Error: Error: Mountpoint not found for '' @ quote # js ''ghost'' @ [quote]) \<and>
   resolveMountpoint exampleMethods exampleProvider (js ''writefile'')
     [(js ''path'', Str (js ''r:/x''))] [] (RoBool True) = Inl (isReadOnly (js ''r'')) \<and>
   code (isReadOnly (js ''r'')) = NumCode 403 \<and>
   fst (request sanitizeFilename exampleMethods countingExec exampleProvider (js ''writefile'')
     (RoBool True) [] [(js ''path'', Str (js ''r:/x''))] [] emptyState) =
     Failed (StatusNum 400) (js ''Error: Error: Mountpoint '' @ quote # js ''r is read-only'' @ [quote]) \<and>
   resolveMountpoint exampleMethods exampleProvider (js ''mkdir'')
     [(js ''path'', Str (js ''a:/x''))] [] (RoBool True) = Inl (notValid (js ''mkdir'')) \<and>
   code (notValid (js ''mkdir'')) = NumCode 401 \<and>
   fst (request sanitizeFilename exampleMethods countingExec exampleProvider (js ''mkdir'')
     (RoBool True) [] [(js ''path'', Str (js ''a:/x''))] [] emptyState) =
     Failed (StatusNum 400) (js ''Error: Error: VFS Endpoint '' @ quote #
                 js ''mkdir was not valid for this mountpoint.'' @ [quote])"
  by (simp add: eval_defs)

section \<open>C2: the chain across adapters\<close>

text \<open>
  C2. A rename or copy whose source and destination resolve to different adapters
  calls \<open>readfile\<close> on the source adapter and mountpoint with the path of \<open>from\<close>,
  then \<open>writefile\<close> on the destination adapter and mountpoint with the path of \<open>to\<close>
  and with what was read as the upload, then, for a rename only, \<open>unlink\<close> on the
  source adapter and mountpoint with the path of \<open>from\<close>, and answers \<open>true\<close>. The
  first step that fails ends the sequence: its error is what the response reports, and
  no further call is made.
\<close>

theorem cross_adapter_sequence:
  assumes ep: "endpoint = js ''rename'' \<or> endpoint = js ''copy''"
    and san: "sanitizeFields sf [js ''path'', js ''from'', js ''to'', js ''root''] raw = Inr fs"
    and src: "resolveMountpoint vm p (js ''readfile'') [(js ''path'', fieldOf fs (js ''from''))] ug (RoBool False) = Inr (sa, sm)"
    and dst: "resolveMountpoint vm p (js ''writefile'') [(js ''path'', fieldOf fs (js ''to''))] ug (RoBool True) = Inr (da, dm)"
    and diff: "sa \<noteq> da"
  shows "request sf vm exec p endpoint r ug raw files s =
     (let rd = \<lparr>cmethod = js ''readfile'', cfields = [(js ''path'', fieldOf fs (js ''from''))],
                cfiles = [], cadapter = sa, cmount = sm\<rparr>;
          ul = \<lparr>cmethod = js ''unlink'', cfields = [(js ''path'', fieldOf fs (js ''from''))],
                cfiles = [], cadapter = sa, cmount = sm\<rparr>
      in case exec rd (world s) of
        (Inl e, w1) \<Rightarrow>
          (Failed (status e) (toString e),
           s\<lparr>calls := calls s @ [rd], world := w1, logged := logged s @ [e]\<rparr>)
      | (Inr ab, w1) \<Rightarrow>
          (let wr = \<lparr>cmethod = js ''writefile'', cfields = [(js ''path'', fieldOf fs (js ''to''))],
                     cfiles = [(js ''upload'', Buffer ab)], cadapter = da, cmount = dm\<rparr>
           in case exec wr w1 of
             (Inl e, w2) \<Rightarrow>
               (Failed (status e) (toString e),
                s\<lparr>calls := calls s @ [rd, wr], world := w2, logged := logged s @ [e]\<rparr>)
           | (Inr x, w2) \<Rightarrow>
               if endpoint = js ''rename''
               then (case exec ul w2 of
                       (Inl e, w3) \<Rightarrow>
                         (Failed (status e) (toString e),
                          s\<lparr>calls := calls s @ [rd, wr, ul], world := w3,
                            logged := logged s @ [e]\<rparr>)
                     | (Inr y, w3) \<Rightarrow>
                         (Json JTrue, s\<lparr>calls := calls s @ [rd, wr, ul], world := w3\<rparr>))
               else (Json JTrue, s\<lparr>calls := calls s @ [rd, wr], world := w2\<rparr>)))"
proof -
  have "getAdapter p sm = Some sa" "getAdapter p dm = Some da"
    using src dst by (auto dest: resolved_adapter)
  with diff have names: "adapter sm \<noteq> adapter dm"
    using same_name_same_adapter [of sm dm p] by auto
  have d: "dispatch vm exec p endpoint r ug fs files s = transfer exec endpoint fs sa sm da dm s"
    using src dst names by (simp add: dispatch_rename_copy [OF ep])
  show ?thesis
    unfolding request_rename_copy [OF ep san] d
    by (simp add: transfer_def andThen_def invoke_def respondError_def Let_def
        split: prod.splits sum.splits)
qed

theorem cross_adapter_sequence_witness:
  "request sanitizeFilename exampleMethods countingExec exampleProvider (js ''rename'') (RoBool True) []
     [(js ''from'', Str (js ''a:/x.txt'')), (js ''to'', Str (js ''b:/y.txt''))] [] emptyState =
   (Json JTrue,
    \<lparr>calls = [\<lparr>cmethod = js ''readfile'', cfields = [(js ''path'', Str (js ''a:/x.txt''))],
               cfiles = [], cadapter = systemAdapter, cmount = mountA\<rparr>,
              \<lparr>cmethod = js ''writefile'', cfields = [(js ''path'', Str (js ''b:/y.txt''))],
               cfiles = [(js ''upload'', Buffer 0)], cadapter = cloudAdapter, cmount = mountB\<rparr>,
              \<lparr>cmethod = js ''unlink'', cfields = [(js ''path'', Str (js ''a:/x.txt''))],
               cfiles = [], cadapter = systemAdapter, cmount = mountA\<rparr>],
     removed = [], logged = [], world = 3\<rparr>) \<and>
   request sanitizeFilename exampleMethods refusingExec exampleProvider (js ''rename'') (RoBool True) []
     [(js ''from'', Str (js ''a:/x.txt'')), (js ''to'', Str (js ''b:/y.txt''))] [] emptyState =
   (Failed (StatusNum 401) (js ''Error: EACCES: permission denied''),
    \<lparr>calls = [\<lparr>cmethod = js ''readfile'', cfields = [(js ''path'', Str (js ''a:/x.txt''))],
               cfiles = [], cadapter = systemAdapter, cmount = mountA\<rparr>,
              \<lparr>cmethod = js ''writefile'', cfields = [(js ''path'', Str (js ''b:/y.txt''))],
               cfiles = [(js ''upload'', Buffer 0)], cadapter = cloudAdapter, cmount = mountB\<rparr>],
     removed = [],
     logged = [External (StrCode (js ''EACCES'')) (js ''Error: EACCES: permission denied'')],
     world = 2\<rparr>)"
proof -
  let ?fs = "[(js ''from'', Str (js ''a:/x.txt'')), (js ''to'', Str (js ''b:/y.txt''))]"
  have ep: "js ''rename'' = js ''rename'' \<or> js ''rename'' = js ''copy''" by simp
  have san: "sanitizeFields sanitizeFilename [js ''path'', js ''from'', js ''to'', js ''root''] ?fs = Inr ?fs"
    by (simp add: eval_defs)
  have src: "resolveMountpoint exampleMethods exampleProvider (js ''readfile'')
      [(js ''path'', fieldOf ?fs (js ''from''))] [] (RoBool False) = Inr (systemAdapter, mountA)"
    by (simp add: eval_defs)
  have dst: "resolveMountpoint exampleMethods exampleProvider (js ''writefile'')
      [(js ''path'', fieldOf ?fs (js ''to''))] [] (RoBool True) = Inr (cloudAdapter, mountB)"
    by (simp add: eval_defs)
  have diff: "systemAdapter \<noteq> cloudAdapter" by (simp add: systemAdapter_def cloudAdapter_def)
  have f: "fieldOf ?fs (js ''from'') = Str (js ''a:/x.txt'')" "fieldOf ?fs (js ''to'') = Str (js ''b:/y.txt'')"
    by (simp_all add: fieldOf_def js_def)
  note t = cross_adapter_sequence [OF ep san src dst diff, unfolded f]
  show ?thesis
    unfolding t
    by (simp add: countingExec_def refusingExec_def emptyState_def status_def errorCodes_def
        js_def Let_def)
qed

section \<open>C3: when the chain is run\<close>

text \<open>
  C3. The mountpoint \<open>a\<close> names no adapter and \<open>s\<close> names the system adapter, so both
  are served by the system adapter, and both resolve to it. Yet a copy from \<open>a\<close> to
  \<open>s\<close> is not handed to that adapter as a copy: the chain of \<open>readfile\<close> and
  \<open>writefile\<close> is run. A copy from \<open>r\<close> to \<open>b\<close>, which both name the cloud adapter,
  is handed to the adapter as one call.
\<close>

theorem same_adapter_decomposed:
  "getAdapter exampleProvider mountA = Some systemAdapter \<and>
   getAdapter exampleProvider mountS = Some systemAdapter \<and>
   resolveMountpoint exampleMethods exampleProvider (js ''readfile'')
     [(js ''path'', Str (js ''a:/x''))] [] (RoBool False) = Inr (systemAdapter, mountA) \<and>
   resolveMountpoint exampleMethods exampleProvider (js ''writefile'')
     [(js ''path'', Str (js ''s:/y''))] [] (RoBool True) = Inr (systemAdapter, mountS) \<and>
   request sanitizeFilename exampleMethods countingExec exampleProvider (js ''copy'')
       (RoFun (\<lambda>fs. fieldOf fs (js ''to''))) []
       [(js ''from'', Str (js ''a:/x'')), (js ''to'', Str (js ''s:/y''))] [] emptyState =
     (Json JTrue,
      \<lparr>calls = [\<lparr>cmethod = js ''readfile'', cfields = [(js ''path'', Str (js ''a:/x''))],
                 cfiles = [], cadapter = systemAdapter, cmount = mountA\<rparr>,
                \<lparr>cmethod = js ''writefile'', cfields = [(js ''path'', Str (js ''s:/y''))],
                 cfiles = [(js ''upload'', Buffer 0)], cadapter = systemAdapter, cmount = mountS\<rparr>],
       removed = [], logged = [], world = 2\<rparr>) \<and>
   request sanitizeFilename exampleMethods countingExec exampleProvider (js ''copy'')
       (RoFun (\<lambda>fs. fieldOf fs (js ''to''))) []
       [(js ''from'', Str (js ''r:/x'')), (js ''to'', Str (js ''b:/y''))] [] emptyState =
     (Json (Value 0),
      \<lparr>calls = [\<lparr>cmethod = js ''copy'',
                 cfields = [(js ''from'', Str (js ''r:/x'')), (js ''to'', Str (js ''b:/y''))],
                 cfiles = [], cadapter = cloudAdapter, cmount = mountR\<rparr>],
       removed = [], logged = [], world = 1\<rparr>)"
  by (simp add: eval_defs)

section \<open>C4: authorization by groups\<close>

text \<open>
  C4, as amended. For an operation name that is none of the names every object
  inherits: authorization succeeds when the mountpoint declares no groups. Otherwise
  it succeeds exactly when every bare group name of the mountpoint is among the
  caller's groups and, where an entry mapping the operation exists, every group that
  the first such entry lists under the operation is among the caller's groups too.
\<close>

theorem validateGroups_conjunction:
  assumes "op \<notin> set [js ''constructor'', js ''__defineGetter__'', js ''__defineSetter__'',
                      js ''hasOwnProperty'', js ''__lookupGetter__'', js ''__lookupSetter__'',
                      js ''isPrototypeOf'', js ''propertyIsEnumerable'', js ''toString'',
                      js ''valueOf'', js ''__proto__'', js ''toLocaleString'']"
  shows "validateGroups ug op m =
     Inr (groups (attributes m) = [] \<or>
      ((\<forall>n. Named n \<in> set (groups (attributes m)) \<longrightarrow> n \<in> set ug) \<and>
       (\<forall>i d gs. i < length (groups (attributes m)) \<and> groups (attributes m) ! i = PerMethod d \<and>
           map_of d op = Some gs \<and>
           (\<forall>j<i. \<forall>d'. groups (attributes m) ! j = PerMethod d' \<longrightarrow> map_of d' op = None)
           \<longrightarrow> set gs \<subseteq> set ug)))"
proof -
  let ?G = "groups (attributes m)"
  let ?first = "\<lambda>i d gs. i < length ?G \<and> ?G ! i = PerMethod d \<and> map_of d op = Some gs \<and>
           (\<forall>j<i. \<forall>d'. ?G ! j = PerMethod d' \<longrightarrow> map_of d' op = None)"
  let ?P = "\<forall>i d gs. ?first i d gs \<longrightarrow> set gs \<subseteq> set ug"
  let ?N = "\<forall>n. Named n \<in> set ?G \<longrightarrow> n \<in> set ug"
  from assms have inh: "op \<notin> set inheritedNames" by (simp add: inheritedNames_def)
  note fe = first_entry [OF inh, of ?G]
  have named: "(if concat (map nameOf (filter isNamed ?G)) \<noteq> []
                then all_in (concat (map nameOf (filter isNamed ?G))) ug else True) = ?N"
    using named_concat [of ?G] by (auto simp: all_in_def list_all_iff)
  have vg: "validateGroups ug op m =
     (if ?G \<noteq> [] then
        (case find (hasMethod op) ?G of
           Some g \<Rightarrow> (case allUnder op g ug of
                       Inl e \<Rightarrow> Inl e
                     | Inr methodValid \<Rightarrow> Inr (?N \<and> methodValid))
         | None \<Rightarrow> Inr ?N)
      else Inr True)"
    unfolding validateGroups_def Let_def named by (rule refl)
  have found: "find (hasMethod op) ?G = Some (PerMethod d)" if "?first i d gs" for i d gs
    using that fe [of "PerMethod d"] by blast
  show ?thesis
  proof (cases "find (hasMethod op) ?G")
    case None
    have ?P
    proof (intro allI impI)
      fix i d gs assume "?first i d gs"
      then have "find (hasMethod op) ?G = Some (PerMethod d)" by (rule found)
      with None show "set gs \<subseteq> set ug" by simp
    qed
    with None show ?thesis by (simp add: vg)
  next
    case (Some g)
    then obtain i d gs where f: "?first i d gs" and g: "g = PerMethod d"
      using fe [of g] by blast
    have P: "?P = (set gs \<subseteq> set ug)"
    proof
      assume ?P
      with f show "set gs \<subseteq> set ug" by blast
    next
      assume s: "set gs \<subseteq> set ug"
      show ?P
      proof (intro allI impI)
        fix i' d' gs' assume f': "?first i' d' gs'"
        then have "find (hasMethod op) ?G = Some (PerMethod d')" by (rule found)
        with Some g have "d' = d" by simp
        with f f' have "gs' = gs" by simp
        with s show "set gs' \<subseteq> set ug" by simp
      qed
    qed
    have "allUnder op g ug = Inr (set gs \<subseteq> set ug)"
      using f g by (simp add: all_in_def list_all_iff subset_eq)
    with Some show ?thesis
      unfolding P by (simp add: vg)
  qed
qed

theorem validateGroups_conjunction_witness:
  "validateGroups [js ''users''] (js ''write'') mountA = Inr True \<and>
   validateGroups [js ''users''] (js ''write'') mountW = Inr False \<and>
   validateGroups [js ''users''] (js ''read'') mountW = Inr True \<and>
   validateGroups [js ''users'', js ''admins''] (js ''write'') mountW = Inr True"
proof -
  have h: "js ''write'' \<notin> set [js ''constructor'', js ''__defineGetter__'', js ''__defineSetter__'',
                      js ''hasOwnProperty'', js ''__lookupGetter__'', js ''__lookupSetter__'',
                      js ''isPrototypeOf'', js ''propertyIsEnumerable'', js ''toString'',
                      js ''valueOf'', js ''__proto__'', js ''toLocaleString'']"
    by (simp add: js_def)
  have a: "validateGroups [js ''users''] (js ''write'') mountA = Inr True"
    by (subst validateGroups_conjunction [OF h]) (simp add: mountA_def)
  have b: "validateGroups [js ''users''] (js ''write'') mountW = Inr False"
    by (simp add: validateGroups_def mountW_def all_in_def js_def inheritedNames_def)
  have c: "validateGroups [js ''users''] (js ''read'') mountW = Inr True"
    by (simp add: validateGroups_def mountW_def all_in_def js_def inheritedNames_def)
  have d: "validateGroups [js ''users'', js ''admins''] (js ''write'') mountW = Inr True"
    by (simp add: validateGroups_def mountW_def all_in_def js_def inheritedNames_def)
  from a b c d show ?thesis by simp
qed

text \<open>
  C4 as stated fails: the mountpoint \<open>t\<close> has two entries that map \<open>write\<close>, the first
  to no group and the second to \<open>admins\<close>. A caller without \<open>admins\<close> is authorized
  for \<open>write\<close>, though an entry for \<open>write\<close> lists a group the caller lacks.
\<close>

theorem validateGroups_second_entry_counterexample:
  "validateGroups [js ''users''] (js ''write'') mountTwo = Inr True \<and>
   PerMethod [(js ''write'', [js ''admins''])] \<in> set (groups (attributes mountTwo)) \<and>
   js ''admins'' \<notin> set [js ''users'']"
  by (simp add: validateGroups_def mountTwo_def all_in_def js_def inheritedNames_def)

section \<open>C5: the read-only check\<close>

text \<open>
  C5. A mountpoint that is not read-only is never blocked. On a read-only mountpoint a
  function override blocks exactly when the prefix of the value it computes from the
  fields is the name of the mountpoint, and a boolean override is itself the decision.
\<close>

theorem checkReadOnly_decision:
  "(\<not> readOnly (attributes m) \<longrightarrow> \<not> checkReadOnly r m fs) \<and>
   (readOnly (attributes m) \<longrightarrow>
      checkReadOnly (RoFun f) m fs = (getPrefix (f fs) = name m) \<and>
      checkReadOnly (RoBool b) m fs = b)"
  by (simp add: checkReadOnly_def)

theorem checkReadOnly_decision_witness:
  "\<not> checkReadOnly (RoBool True) mountA [] \<and>
   checkReadOnly (RoFun (\<lambda>fs. fieldOf fs (js ''to''))) mountR [(js ''to'', Str (js ''r:/x''))] \<and>
   \<not> checkReadOnly (RoFun (\<lambda>fs. fieldOf fs (js ''to''))) mountR [(js ''to'', Str (js ''b:/x''))] \<and>
   checkReadOnly (RoBool True) mountR [] \<and>
   \<not> checkReadOnly (RoBool False) mountR []"
  using checkReadOnly_decision [where m = mountA and r = "RoBool True" and fs = "[]"]
    checkReadOnly_decision [where m = mountR and f = "\<lambda>fs. fieldOf fs (js ''to'')"
      and fs = "[(js ''to'', Str (js ''r:/x''))]"]
    checkReadOnly_decision [where m = mountR and f = "\<lambda>fs. fieldOf fs (js ''to'')"
      and fs = "[(js ''to'', Str (js ''b:/x''))]"]
    checkReadOnly_decision [where m = mountR and b = True and fs = "[]"]
    checkReadOnly_decision [where m = mountR and b = False and fs = "[]"]
  by (simp add: mountA_def mountR_def fieldOf_def getPrefix_def js_def colon_def)

section \<open>C6: the resolutions of rename and copy\<close>

text \<open>
  C6. A copy from \<open>r\<close>, which is read-only, to \<open>a\<close> is not refused for the source: the
  source resolves, with the override false. A copy from \<open>a\<close> to \<open>r\<close> is refused for
  the destination, which is resolved for \<open>writefile\<close> with the override true: the
  resolver throws the read-only error, whose code is 403. The \<^verbatim>\<open>catch\<close> block wraps
  it in a new error, which has no code, so the client is sent status 400; no handler is
  called.
\<close>

theorem readOnly_destination_status_400:
  "resolveMountpoint exampleMethods exampleProvider (js ''readfile'')
     [(js ''path'', Str (js ''r:/x''))] [] (RoBool False) = Inr (cloudAdapter, mountR) \<and>
   resolveMountpoint exampleMethods exampleProvider (js ''writefile'')
     [(js ''path'', Str (js ''r:/y''))] [] (RoBool True) =
     Inl (VFSError (js ''Mountpoint '' @ quote # js ''r is read-only'' @ [quote]) 403) \<and>
   request sanitizeFilename exampleMethods countingExec exampleProvider (js ''copy'')
       (RoFun (\<lambda>fs. fieldOf fs (js ''to''))) []
       [(js ''from'', Str (js ''a:/x'')), (js ''to'', Str (js ''r:/y''))] [] emptyState =
     (Failed (StatusNum 400) (js ''Error: Error: Mountpoint '' @ quote # js ''r is read-only'' @ [quote]),
      \<lparr>calls = [], removed = [],
       logged = [Wrapped (VFSError (js ''Mountpoint '' @ quote # js ''r is read-only'' @ [quote]) 403)],
       world = 0\<rparr>)"
  by (simp add: eval_defs)

section \<open>C7: the prefix of a path\<close>




section \<open>C8: the status of a handler error\<close>

text \<open>
  C8. A handler fails with an error whose code is \<open>constructor\<close>. The table
  \<^verbatim>\<open>errorCodes\<close> is a plain object and inherits a property of that name, so
  \<^verbatim>\<open>errorCodes[error.code] || 400\<close> is that property and not 400, and it is what
  \<^verbatim>\<open>res.status\<close> is given. With the code \<open>EEXIST\<close>, which the table does not hold
  either, the status is 400; \<open>ENOENT\<close> gives 404, \<open>EACCES\<close> 401, and the numeric
  code 418 is passed on.
\<close>

theorem inherited_code_status:
  "fst (request sanitizeFilename exampleMethods
          (rejectingExec (External (StrCode (js ''constructor'')) (js ''Error: failed'')))
          exampleProvider (js ''readfile'') (RoBool False) []
          [(js ''path'', Str (js ''a:/x''))] [] emptyState) =
     Failed (StatusInherited (js ''constructor'')) (js ''Error: failed'') \<and>
   fst (request sanitizeFilename exampleMethods
          (rejectingExec (External (StrCode (js ''EEXIST'')) (js ''Error: failed'')))
          exampleProvider (js ''readfile'') (RoBool False) []
          [(js ''path'', Str (js ''a:/x''))] [] emptyState) =
     Failed (StatusNum 400) (js ''Error: failed'') \<and>
   fst (request sanitizeFilename exampleMethods
          (rejectingExec (External (StrCode (js ''ENOENT'')) (js ''Error: failed'')))
          exampleProvider (js ''readfile'') (RoBool False) []
          [(js ''path'', Str (js ''a:/x''))] [] emptyState) =
     Failed (StatusNum 404) (js ''Error: failed'') \<and>
   fst (request sanitizeFilename exampleMethods
          (rejectingExec (External (StrCode (js ''EACCES'')) (js ''Error: failed'')))
          exampleProvider (js ''readfile'') (RoBool False) []
          [(js ''path'', Str (js ''a:/x''))] [] emptyState) =
     Failed (StatusNum 401) (js ''Error: failed'') \<and>
   fst (request sanitizeFilename exampleMethods
          (rejectingExec (External (NumCode 418) (js ''Error: failed'')))
          exampleProvider (js ''readfile'') (RoBool False) []
          [(js ''path'', Str (js ''a:/x''))] [] emptyState) =
     Failed (StatusNum 418) (js ''Error: failed'')"
  by (simp add: eval_defs)

section \<open>C9: sanitizing twice\<close>

text \<open>
  C9, as amended. Wherever \<^verbatim>\<open>sanitize\<close> returns, sanitizing its result again gives
  the same path exactly when no segment of the sanitized path is a name reserved on
  Windows or ends in a dot or a space.
\<close>

theorem sanitize_idempotent:
  assumes p: "sanitize sanitizeFilename p = Inr q"
  shows "(sanitize sanitizeFilename q = Inr q) =
         (\<forall>z\<in>set (pathSegments q). \<not> windowsReserved z \<and> stripTrailing z = z)"
proof -
  have safe: "\<forall>x. (\<forall>c\<in>set x. c \<noteq> slash \<and> \<not> isLineTerminator c) \<longrightarrow>
                   (\<forall>c\<in>set (sanitizeFilename x). c \<noteq> slash \<and> \<not> isLineTerminator c)"
    using sanitizeFilename_set by blast
  from sanitize_shape [OF p safe] obtain n sane where q: "q = n @ colon # sane"
    and m: "matchPath (collapseSlashes q) = Some (n, sane)" and c: "collapseSlashes sane = sane"
    and ps: "pathSegments q = splitOn slash sane"
    and rng: "set (splitOn slash sane) \<subseteq> range sanitizeFilename"
    by blast
  let ?zs = "splitOn slash sane"
  have again: "sanitize sanitizeFilename q =
      Inr (n @ colon # collapseSlashes (joinWith slash (map sanitizeFilename ?zs)))"
    using m by (simp add: sanitize_def)
  show ?thesis
  proof
    assume same: "sanitize sanitizeFilename q = Inr q"
    show "\<forall>z\<in>set (pathSegments q). \<not> windowsReserved z \<and> stripTrailing z = z"
    proof (rule ccontr)
      assume "\<not> (\<forall>z\<in>set (pathSegments q). \<not> windowsReserved z \<and> stripTrailing z = z)"
      then obtain z where z: "z \<in> set ?zs" and bad: "windowsReserved z \<or> stripTrailing z \<noteq> z"
        unfolding ps by blast
      from z rng obtain x where "z = sanitizeFilename x" by blast
      then have "length (sanitizeFilename z) < length z" using bad by (rule sanitizeFilename_shorter)
      with z have "\<exists>z\<in>set ?zs. length (sanitizeFilename z) < length z" by blast
      moreover have "\<forall>z\<in>set ?zs. length (sanitizeFilename z) \<le> length z"
        using sanitizeFilename_length by blast
      ultimately have "sum_list (map (\<lambda>z. length (sanitizeFilename z)) ?zs) < sum_list (map length ?zs)"
        by (rule sum_list_strict [rotated])
      then have "length (joinWith slash (map sanitizeFilename ?zs)) < length (joinWith slash ?zs)"
        by (simp add: join_length comp_def)
      then have "length (collapseSlashes (joinWith slash (map sanitizeFilename ?zs))) < length sane"
        using collapse_length [of "joinWith slash (map sanitizeFilename ?zs)"]
        by (simp add: join_split)
      moreover from same again q
      have "collapseSlashes (joinWith slash (map sanitizeFilename ?zs)) = sane" by simp
      ultimately show False by simp
    qed
  next
    assume ok: "\<forall>z\<in>set (pathSegments q). \<not> windowsReserved z \<and> stripTrailing z = z"
    have "\<forall>z\<in>set ?zs. sanitizeFilename z = z"
    proof
      fix z assume z: "z \<in> set ?zs"
      with rng obtain x where "z = sanitizeFilename x" by blast
      moreover from z ok ps have "\<not> windowsReserved z" "stripTrailing z = z" by simp_all
      ultimately show "sanitizeFilename z = z" by (rule sanitizeFilename_fixed)
    qed
    then have "map sanitizeFilename ?zs = ?zs" by (simp add: map_idI)
    then have "collapseSlashes (joinWith slash (map sanitizeFilename ?zs)) = sane"
      by (simp add: join_split c)
    with again q show "sanitize sanitizeFilename q = Inr q" by simp
  qed
qed

theorem sanitize_idempotent_witness:
  "sanitize sanitizeFilename (js ''home://a?//b.txt '') = Inr (js ''home:/a/b.txt'') \<and>
   sanitize sanitizeFilename (js ''home:/a/b.txt'') = Inr (js ''home:/a/b.txt'')"
proof -
  have p: "sanitize sanitizeFilename (js ''home://a?//b.txt '') = Inr (js ''home:/a/b.txt'')"
    by (simp add: eval_defs)
  have ok: "\<forall>z\<in>set (pathSegments (js ''home:/a/b.txt'')). \<not> windowsReserved z \<and> stripTrailing z = z"
    by (simp add: eval_defs)
  from sanitize_idempotent [OF p] ok p show ?thesis by simp
qed

text \<open>
  C9 as stated fails: the trailing space of \<open>con \<close> goes in the first pass, and the
  second pass then removes the reserved name \<open>con\<close>.
\<close>

theorem sanitize_idempotent_counterexample:
  "sanitize sanitizeFilename (js ''a:con '') = Inr (js ''a:con'') \<and>
   sanitize sanitizeFilename (js ''a:con'') = Inr (js ''a:'') \<and>
   js ''a:con'' \<noteq> js ''a:''"
  by (simp add: eval_defs)

section \<open>C10: where sanitizing throws\<close>

text \<open>
  C10. A string that does not start with a non-empty run of word characters followed
  by a colon makes \<^verbatim>\<open>sanitize\<close> throw the TypeError of \<^verbatim>\<open>str.split\<close>. A request
  that holds such a string in its \<open>path\<close>, \<open>from\<close>, \<open>to\<close> or \<open>root\<close> field ends with
  that error when the fields are sanitized: the state is the initial one, so no handler
  was called, and no response is written.
\<close>

theorem sanitize_partial:
  assumes "\<not> (\<exists>n rest. n \<noteq> [] \<and> (\<forall>c\<in>set n. isWordChar c) \<and> v = n @ colon # rest)"
  shows "sanitize sf v = Inl splitTypeError \<and>
         (k \<in> set [js ''path'', js ''from'', js ''to'', js ''root''] \<and> fieldOf fs k = Str v \<longrightarrow>
          request sf vfsMethods exec p endpoint r userGroups fs files s = (Uncaught splitTypeError, s))"
proof -
  from assms have "matchPath (collapseSlashes v) = None"
    by (simp add: matchPath_collapse_None)
  then have a: "sanitize sf v = Inl splitTypeError" by (simp add: sanitize_def)
  have "request sf vfsMethods exec p endpoint r userGroups fs files s = (Uncaught splitTypeError, s)"
    if "k \<in> set [js ''path'', js ''from'', js ''to'', js ''root'']" and "fieldOf fs k = Str v"
  proof -
    from that a
    have "sanitizeFields sf [js ''path'', js ''from'', js ''to'', js ''root''] fs = Inl splitTypeError"
      by (rule sanitizeFields_bad)
    then show ?thesis by (simp add: request_def)
  qed
  with a show ?thesis by blast
qed

theorem sanitize_partial_witness:
  "sanitize sanitizeFilename (js ''my-mount:file'') = Inl splitTypeError \<and>
   request sanitizeFilename exampleMethods countingExec exampleProvider (js ''copy'') (RoBool True) []
     [(js ''from'', Str (js ''a:/x'')), (js ''to'', Str (js ''my-mount:file''))] [] emptyState =
     (Uncaught splitTypeError, emptyState)"
proof -
  have "matchPath (collapseSlashes (js ''my-mount:file'')) = None"
    by (simp add: js_def matchPath_def isWordChar_def colon_def slash_def)
  then have h: "\<not> (\<exists>n rest. n \<noteq> [] \<and> (\<forall>c\<in>set n. isWordChar c) \<and> js ''my-mount:file'' = n @ colon # rest)"
    using matchPath_collapse_None [of "js ''my-mount:file''"] by blast
  have f: "fieldOf [(js ''from'', Str (js ''a:/x'')), (js ''to'', Str (js ''my-mount:file''))] (js ''to'') =
           Str (js ''my-mount:file'')"
    by (simp add: fieldOf_def js_def)
  from sanitize_partial [OF h, where k = "js ''to''" and sf = sanitizeFilename
      and fs = "[(js ''from'', Str (js ''a:/x'')), (js ''to'', Str (js ''my-mount:file''))]"
      and vfsMethods = exampleMethods and exec = countingExec and p = exampleProvider
      and endpoint = "js ''copy''" and r = "RoBool True" and userGroups = "[]" and files = "[]"
      and s = emptyState] f
  show ?thesis by simp
qed

end
